theory Spec2Isabelle
  imports Main "HOL-Library.Word" "HOL-Library.Signed_Division"
begin

unbundle bit_operations_syntax

section \<open>cuse-maru: the OSS character device on top of libmaru\<close>

text \<open>
  A shallow embedding of \<^verbatim>\<open>src/cuse-maru/cuse-maru.c\<close>. Every request handler of the
  C file becomes a function from the global state \<^verbatim>\<open>g_state\<close> (and the request's
  arguments) to the new global state, the calls it issued to its collaborators, and the
  reply it sent to the CUSE framework.

  C integers are machine words: \<^verbatim>\<open>unsigned\<close> and \<^verbatim>\<open>int\<close> are 32 bits wide (an
  \<^verbatim>\<open>int\<close> is read with \<open>sint\<close>), \<^verbatim>\<open>size_t\<close> is 64 bits wide. Arithmetic wraps
  around; a division by zero and a failed \<^verbatim>\<open>assert\<close> end the process and are the
  reply \<open>Abort\<close>; a shift that C leaves undefined is the reply \<open>Undefined\<close>.
\<close>

type_synonym u32 = "32 word"
type_synonym s32 = "32 word"
type_synonym size_t = "64 word"
type_synonym maru_stream = "32 word"
type_synonym maru_volume = "32 word"
type_synonym maru_usec = "64 word"
type_synonym pollhandle = nat

subsection \<open>The hardware transport (libmaru)\<close>

record maru_stream_desc =
  d_sample_rate :: u32
  d_channels :: u32
  d_bits :: u32
  d_fragment_size :: size_t
  d_buffer_size :: size_t
  d_sample_rate_min :: u32
  d_sample_rate_max :: u32

text \<open>
  Modelled from the spec: \<^verbatim>\<open>libmaru.h\<close> and the library behind it are not among the
  sources. The transport is an external collaborator ``specified only at its interface
  boundary'', so what it answers during one request is a parameter of that request:
  one field per libmaru call that \<^verbatim>\<open>cuse-maru.c\<close> makes, a function of the
  arguments the call is given (the context argument is left out). The two constants of
  the header that the C file uses, the sentinel ``unbound'' handle
  \<^verbatim>\<open>LIBMARU_STREAM_MASTER\<close> and the ``explicit mute value''
  \<^verbatim>\<open>LIBMARU_VOLUME_MUTE\<close>, are parameters too. \<^verbatim>\<open>maru_stream\<close> is taken as
  \<^verbatim>\<open>unsigned\<close> and \<^verbatim>\<open>maru_volume\<close> as \<^verbatim>\<open>int\<close>; a call that reports
  \<^verbatim>\<open>LIBMARU_SUCCESS\<close> is \<open>True\<close>.
\<close>

record libmaru =
  LIBMARU_STREAM_MASTER :: maru_stream
  LIBMARU_VOLUME_MUTE :: maru_volume
  maru_find_available_stream :: s32
  maru_stream_open :: "maru_stream \<Rightarrow> maru_stream_desc \<Rightarrow> bool"
  maru_stream_write_avail :: "maru_stream \<Rightarrow> size_t"
  maru_stream_write :: "maru_stream \<Rightarrow> size_t \<Rightarrow> size_t"
  maru_stream_set_volume :: "maru_stream \<Rightarrow> maru_volume \<Rightarrow> bool"
  maru_stream_get_volume :: "maru_stream \<Rightarrow> maru_volume option"
  maru_stream_current_latency :: "maru_stream \<Rightarrow> maru_usec"
  maru_get_num_streams :: s32
  maru_get_stream_desc :: "maru_stream \<Rightarrow> maru_stream_desc list option"

subsection \<open>The state of the device\<close>

text \<open>
  Modelled from the spec: \<^verbatim>\<open>cuse-maru.h\<close>, which declares
  \<^verbatim>\<open>struct cuse_stream_info\<close>, \<^verbatim>\<open>struct cuse_maru_state\<close> and
  \<^verbatim>\<open>MAX_STREAMS\<close>, is not among the sources. The fields are the ones
  \<^verbatim>\<open>cuse-maru.c\<close> reads and writes, which are the ones the spec lists for a stream
  slot and for the global device context. \<^verbatim>\<open>write_cnt\<close> is a 64-bit counter (it is
  added to and copied into \<^verbatim>\<open>size_t\<close> values), the format and geometry fields are
  \<^verbatim>\<open>unsigned\<close>. A \<^verbatim>\<open>NULL\<close> poll handle is \<open>None\<close>. A mutex is the flag
  ``held''; the per-slot mutex is taken and given back inside one handler and is
  left out. \<^verbatim>\<open>MAX_STREAMS\<close> is the length of the slot table.
\<close>

record cuse_stream_info =
  active :: bool
  stream :: maru_stream
  sample_rate :: u32
  channels :: u32
  bits :: u32
  fragsize :: u32
  frags :: u32
  write_cnt :: "64 word"
  nonblock :: bool
  error :: bool
  ph :: "pollhandle option"
  vol :: s32
  process_name :: string

record cuse_maru_state =
  lock :: bool
  g_sample_rate :: u32
  g_fragsize :: u32
  g_frags :: u32
  min_volume :: maru_volume
  max_volume :: maru_volume
  stream_info :: "cuse_stream_info list"

record fuse_file_info =
  fh :: nat
  flags :: u32

subsection \<open>Replies and calls to collaborators\<close>

datatype errno = EACCES | EBUSY | EPIPE | EAGAIN | EIO | ENOMEM | EINVAL

datatype revents = POLLNONE | POLLOUT | POLLHUP

record audio_buf_info =
  abi_fragments :: s32
  abi_fragstotal :: s32
  abi_fragsize :: s32
  abi_bytes :: s32

record count_info =
  ci_bytes :: s32
  ci_blocks :: s32
  ci_ptr :: s32

datatype ioctl_out =
    Out_null
  | Out_int s32
  | Out_buf_info audio_buf_info
  | Out_count_info count_info

text \<open>
  \<open>Reply_err e\<close> is \<^verbatim>\<open>fuse_reply_err(req, e)\<close> with a non-zero code and
  \<open>Reply_ok\<close> is \<^verbatim>\<open>fuse_reply_err(req, 0)\<close>. \<open>Reply_ioctl_retry i o\<close> is
  \<^verbatim>\<open>fuse_reply_ioctl_retry\<close> with the lengths of the two transfers it asks for.
  \<open>Blocked\<close> is a handler that waits for a mutex nobody gives back, and
  \<open>No_reply\<close> is the end of a callback, which answers no request.
\<close>

datatype reply =
    Reply_err errno
  | Reply_ok
  | Reply_open nat
  | Reply_write size_t
  | Reply_poll revents
  | Reply_ioctl ioctl_out
  | Reply_ioctl_retry size_t size_t
  | Abort
  | Undefined
  | Blocked
  | No_reply

datatype event =
    Stream_open maru_stream maru_stream_desc
  | Set_write_notification maru_stream
  | Stream_close maru_stream
  | Stream_write maru_stream size_t
  | Stream_set_volume maru_stream maru_volume
  | Pollhandle_destroy pollhandle
  | Notify_poll pollhandle
  | Usleep maru_usec

type_synonym outcome = "cuse_maru_state \<times> event list \<times> reply"

subsection \<open>Constants of the system headers\<close>

definition O_RDONLY :: u32 where "O_RDONLY = 0"
definition O_WRONLY :: u32 where "O_WRONLY = 1"
definition O_RDWR :: u32 where "O_RDWR = 2"
definition O_NONBLOCK :: u32 where "O_NONBLOCK = 0x800"

subsection \<open>Binding and writing\<close>

text \<open>
  \<^verbatim>\<open>&g_state.stream_info[info->fh]\<close>: the slot a request works on, and the device
  with that slot replaced.
\<close>

definition the_slot :: "cuse_maru_state \<Rightarrow> fuse_file_info \<Rightarrow> cuse_stream_info" where
  "the_slot g info = stream_info g ! fh info"

definition set_slot :: "cuse_maru_state \<Rightarrow> nat \<Rightarrow> cuse_stream_info \<Rightarrow> cuse_maru_state" where
  "set_slot g i si = g\<lparr>stream_info := (stream_info g)[i := si]\<rparr>"

definition init_stream :: "libmaru \<Rightarrow> cuse_stream_info \<Rightarrow> bool \<times> event list \<times> cuse_stream_info" where
  "init_stream lm si =
    (let strm = maru_find_available_stream lm in
     if sint strm < 0 then (False, [], si)
     else
       let desc = \<lparr> d_sample_rate = sample_rate si,
                    d_channels = channels si,
                    d_bits = bits si,
                    d_fragment_size = ucast (fragsize si),
                    d_buffer_size = ucast (fragsize si * frags si),
                    d_sample_rate_min = 0,
                    d_sample_rate_max = 0 \<rparr>
       in if \<not> maru_stream_open lm strm desc then (False, [Stream_open strm desc], si)
          else (True, [Stream_open strm desc, Set_write_notification strm],
                si\<lparr>stream := strm\<rparr>))"

text \<open>
  The first write binds the slot: \<^verbatim>\<open>init_stream\<close> runs only while the handle is still
  the sentinel, and a slot that is bound already goes on as it is.
\<close>

definition bind_slot :: "libmaru \<Rightarrow> cuse_stream_info \<Rightarrow> bool \<times> event list \<times> cuse_stream_info" where
  "bind_slot lm si =
     (if stream si = LIBMARU_STREAM_MASTER lm then init_stream lm si else (True, [], si))"

definition frame_size :: "cuse_stream_info \<Rightarrow> u32" where
  "frame_size si = channels si * bits si div 8"

definition maru_write :: "libmaru \<Rightarrow> cuse_maru_state \<Rightarrow> fuse_file_info \<Rightarrow> size_t \<Rightarrow> outcome" where
  "maru_write lm g info sz =
    (let si = the_slot g info in
     if error si then (g, [], Reply_err EPIPE)
     else if sz = 0 then (g, [], Reply_write 0)
     else
       let (ok, ev, si1) = bind_slot lm si
       in if \<not> ok then (g, ev, Reply_err EBUSY)
          else
            let g1 = set_slot g (fh info) si1;
                nonblk = (flags info AND O_NONBLOCK \<noteq> 0 \<or> nonblock si1)
            in if nonblk \<and> frame_size si1 = 0 then (g1, ev, Abort)
               else
                 let to_write =
                       (if nonblk then
                          let avail = maru_stream_write_avail lm (stream si1);
                              whole = avail div ucast (frame_size si1) * ucast (frame_size si1)
                          in if sz < whole then sz else whole
                        else sz)
                 in if to_write = 0 then (g1, ev, Reply_err EAGAIN)
                    else
                      let ret = maru_stream_write lm (stream si1) to_write;
                          ev1 = ev @ [Stream_write (stream si1) to_write]
                      in if ret = 0 then (g1, ev1, Reply_err EIO)
                         else (set_slot g1 (fh info) (si1\<lparr>write_cnt := write_cnt si1 + ret\<rparr>),
                               ev1, Reply_write ret))"

subsection \<open>The volume mapper\<close>

definition set_volume :: "libmaru \<Rightarrow> cuse_maru_state \<Rightarrow> cuse_stream_info \<Rightarrow> s32
    \<Rightarrow> bool \<times> event list \<times> cuse_stream_info" where
  "set_volume lm g si volume =
    (let mn = min_volume g;
         mx = max_volume g;
         i = volume;
         v0 = (if 0 < sint i
               then word_of_int (sint (mx * i + mn * (100 - i)) sdiv 100)
               else LIBMARU_VOLUME_MUTE lm);
         v = (if sint v0 < sint mn \<and> 0 < sint i then mn
              else if sint mx < sint v0 then mx
              else v0)
     in if \<not> maru_stream_set_volume lm (stream si) v
        then (False, [Stream_set_volume (stream si) v], si)
        else (True, [Stream_set_volume (stream si) v], si\<lparr>vol := v\<rparr>))"

definition read_volume :: "libmaru \<Rightarrow> cuse_maru_state \<Rightarrow> cuse_stream_info
    \<Rightarrow> bool \<times> cuse_stream_info" where
  "read_volume lm g si =
    (let mn = min_volume g;
         mx = max_volume g
     in case maru_stream_get_volume lm (stream si) of
          None \<Rightarrow> (False, si)
        | Some cur \<Rightarrow>
            let i = (if sint mx \<le> sint mn then 100
                     else if sint cur < sint mn then 0
                     else if sint mx < sint cur then 100
                     else word_of_int (sint (100 * (cur - mn)) sdiv sint (mx - mn)))
            in (True, si\<lparr>vol := i\<rparr>))"

subsection \<open>Control requests\<close>

text \<open>
  The two-phase marshalling of \<^verbatim>\<open>ioctl_prep_uarg\<close>: \<open>Some r\<close> when the handler
  returns at once (with the retry reply, or because an \<^verbatim>\<open>assert\<close> on the buffer
  sizes failed), \<open>None\<close> when the buffers are there and the handler goes on. The
  arguments \<^verbatim>\<open>in\<close> and \<^verbatim>\<open>out\<close> are given by their sizes, \<open>None\<close> for
  \<^verbatim>\<open>NULL\<close>.
\<close>

definition ioctl_prep_uarg :: "size_t option \<Rightarrow> size_t option \<Rightarrow> size_t \<Rightarrow> size_t
    \<Rightarrow> reply option" where
  "ioctl_prep_uarg in_size out_size in_bufsize out_bufsize =
    (let in_len = (case in_size of None \<Rightarrow> 0
                   | Some n \<Rightarrow> if in_bufsize = 0 then n else 0);
         in_retry = (in_size \<noteq> None \<and> in_bufsize = 0);
         in_assert = (case in_size of None \<Rightarrow> True
                      | Some n \<Rightarrow> in_bufsize = 0 \<or> in_bufsize = n);
         out_len = (case out_size of None \<Rightarrow> 0
                    | Some n \<Rightarrow> if out_bufsize = 0 then n else 0);
         out_retry = (out_size \<noteq> None \<and> out_bufsize = 0);
         out_assert = (case out_size of None \<Rightarrow> True
                       | Some n \<Rightarrow> out_bufsize = 0 \<or> out_bufsize = n)
     in if \<not> in_assert \<or> \<not> out_assert then Some Abort
        else if in_retry \<or> out_retry then Some (Reply_ioctl_retry in_len out_len)
        else None)"

definition PREP_UARG_OUT :: "size_t \<Rightarrow> size_t \<Rightarrow> size_t \<Rightarrow> reply option" where
  "PREP_UARG_OUT out_size in_bufsize out_bufsize =
     ioctl_prep_uarg None (Some out_size) in_bufsize out_bufsize"

definition PREP_UARG_INOUT :: "size_t \<Rightarrow> size_t \<Rightarrow> size_t \<Rightarrow> size_t \<Rightarrow> reply option" where
  "PREP_UARG_INOUT in_size out_size in_bufsize out_bufsize =
     ioctl_prep_uarg (Some in_size) (Some out_size) in_bufsize out_bufsize"

definition sizeof_int :: size_t where "sizeof_int = 4"
definition sizeof_audio_buf_info :: size_t where "sizeof_audio_buf_info = 16"
definition sizeof_count_info :: size_t where "sizeof_count_info = 12"

definition DSP_CAP_REALTIME :: s32 where "DSP_CAP_REALTIME = 0x200"
definition DSP_CAP_TRIGGER :: s32 where "DSP_CAP_TRIGGER = 0x1000"
definition DSP_CAP_MULTI :: s32 where "DSP_CAP_MULTI = 0x4000"
definition AFMT_U8 :: s32 where "AFMT_U8 = 0x8"
definition AFMT_S16_LE :: s32 where "AFMT_S16_LE = 0x10"

text \<open>
  Modelled from the spec: \<^verbatim>\<open>next_pot\<close> is declared in \<^verbatim>\<open>utils.h\<close>, which is not
  among the sources. The spec says of its two uses that the value is rounded ``up to the
  next power of two'': the first power of two, counting up from 1, that is not below the
  argument.
\<close>

function pot_from :: "nat \<Rightarrow> nat \<Rightarrow> nat" where
  "pot_from p v = (if p = 0 \<or> v \<le> p then p else pot_from (2 * p) v)"
  by pat_completeness auto
termination
  by (relation "measure (\<lambda>(p, v). v - p)") auto

definition next_pot :: "u32 \<Rightarrow> u32" where
  "next_pot v = of_nat (pot_from 1 (unat v))"

text \<open>
  The requests of \<^verbatim>\<open>maru_ioctl\<close>'s \<^verbatim>\<open>switch\<close>, one constructor for each
  \<^verbatim>\<open>case\<close> label. \<^verbatim>\<open>SNDCTL_DSP_HALT\<close> shares the case of
  \<^verbatim>\<open>SNDCTL_DSP_RESET\<close>. Every number without a \<^verbatim>\<open>case\<close> is \<open>Other_cmd\<close> and
  reaches \<^verbatim>\<open>default\<close>; so does \<^verbatim>\<open>SNDCTL_DSP_GETFMTS\<close>, whose label is guarded
  by a macro name (\<^verbatim>\<open>SNDCTL_GETFMTS\<close>) that no header defines, and any request
  whose macro the system's \<^verbatim>\<open>soundcard.h\<close> lacks.
\<close>

datatype oss_cmd =
    OSS_GETVERSION
  | SNDCTL_DSP_COOKEDMODE
  | SNDCTL_DSP_NONBLOCK
  | SNDCTL_DSP_GETCAPS
  | SNDCTL_DSP_RESET
  | SNDCTL_DSP_SPEED
  | SNDCTL_DSP_SETFMT
  | SNDCTL_DSP_CHANNELS
  | SNDCTL_DSP_STEREO
  | SNDCTL_DSP_GETOSPACE
  | SNDCTL_DSP_GETBLKSIZE
  | SNDCTL_DSP_SETFRAGMENT
  | SNDCTL_DSP_GETODELAY
  | SNDCTL_DSP_SYNC
  | SNDCTL_DSP_GETOPTR
  | SNDCTL_DSP_SETPLAYVOL
  | SNDCTL_DSP_GETPLAYVOL
  | SNDCTL_DSP_SETTRIGGER
  | SNDCTL_DSP_POST
  | Other_cmd u32

text \<open>
  The buffers of one \<^verbatim>\<open>ioctl\<close> call: the \<^verbatim>\<open>int\<close> that \<^verbatim>\<open>in_buf\<close> holds once
  it is there, and the two buffer sizes.
\<close>

record ioctl_args =
  in_buf :: s32
  in_bufsize :: size_t
  out_bufsize :: size_t

definition reply_int :: "cuse_maru_state \<Rightarrow> s32 \<Rightarrow> outcome" where
  "reply_int g i = (g, [], Reply_ioctl (Out_int i))"

definition with_out_int :: "ioctl_args \<Rightarrow> cuse_maru_state \<Rightarrow> outcome \<Rightarrow> outcome" where
  "with_out_int a g k =
     (case PREP_UARG_OUT sizeof_int (in_bufsize a) (out_bufsize a) of
        Some r \<Rightarrow> (g, [], r) | None \<Rightarrow> k)"

definition with_inout_int :: "ioctl_args \<Rightarrow> cuse_maru_state \<Rightarrow> outcome \<Rightarrow> outcome" where
  "with_inout_int a g k =
     (case PREP_UARG_INOUT sizeof_int sizeof_int (in_bufsize a) (out_bufsize a) of
        Some r \<Rightarrow> (g, [], r) | None \<Rightarrow> k)"

fun maru_ioctl :: "libmaru \<Rightarrow> cuse_maru_state \<Rightarrow> fuse_file_info \<Rightarrow> oss_cmd \<Rightarrow> ioctl_args
    \<Rightarrow> outcome" where
  "maru_ioctl lm g info OSS_GETVERSION a =
     with_out_int a g (reply_int g (push_bit 16 3 OR push_bit 8 8 OR push_bit 4 1 OR 0))"
| "maru_ioctl lm g info SNDCTL_DSP_COOKEDMODE a =
     with_inout_int a g (reply_int g (in_buf a))"
| "maru_ioctl lm g info SNDCTL_DSP_NONBLOCK a =
     (set_slot g (fh info) ((the_slot g info)\<lparr>nonblock := True\<rparr>), [], Reply_ioctl Out_null)"
| "maru_ioctl lm g info SNDCTL_DSP_GETCAPS a =
     with_out_int a g
       (reply_int g (DSP_CAP_REALTIME OR DSP_CAP_TRIGGER OR
          (if 1 < sint (maru_get_num_streams lm) then DSP_CAP_MULTI else 0)))"
| "maru_ioctl lm g info SNDCTL_DSP_RESET a =
     (let si = the_slot g info in
      if stream si \<noteq> LIBMARU_STREAM_MASTER lm
      then (set_slot g (fh info) (si\<lparr>stream := LIBMARU_STREAM_MASTER lm, write_cnt := 0\<rparr>),
            [Stream_close (stream si)], Reply_ioctl Out_null)
      else (g, [], Reply_ioctl Out_null))"
| "maru_ioctl lm g info SNDCTL_DSP_SPEED a =
     with_inout_int a g
       (let si = the_slot g info;
            i = in_buf a;
            found = maru_find_available_stream lm
        in if stream si = LIBMARU_STREAM_MASTER lm \<and> sint found < 0
           then (g, [], Reply_err EBUSY)
           else
             let strm = (if stream si = LIBMARU_STREAM_MASTER lm then found else stream si)
             in case maru_get_stream_desc lm strm of
                  None \<Rightarrow> (g, [], Reply_err ENOMEM)
                | Some [] \<Rightarrow> (g, [], Reply_err ENOMEM)
                | Some (desc # _) \<Rightarrow>
                    let i1 =
                      (if d_sample_rate desc \<noteq> 0 \<and> i \<noteq> d_sample_rate desc
                       then d_sample_rate desc
                       else if d_sample_rate desc = 0
                       then (if sint (d_sample_rate_max desc) < sint i
                             then d_sample_rate_max desc
                             else if sint i < sint (d_sample_rate_min desc)
                             then d_sample_rate_min desc
                             else i)
                       else i)
                    in (set_slot g (fh info) (si\<lparr>sample_rate := i1\<rparr>), [],
                        Reply_ioctl (Out_int i1)))"
| "maru_ioctl lm g info SNDCTL_DSP_SETFMT a =
     with_inout_int a g
       (let si = the_slot g info;
            i = in_buf a
        in reply_int g (if bits si = 8 then AFMT_U8
                        else if bits si = 16 then AFMT_S16_LE
                        else i))"
| "maru_ioctl lm g info SNDCTL_DSP_CHANNELS a =
     with_inout_int a g (reply_int g (channels (the_slot g info)))"
| "maru_ioctl lm g info SNDCTL_DSP_STEREO a =
     with_inout_int a g (reply_int g (if 1 < channels (the_slot g info) then 1 else 0))"
| "maru_ioctl lm g info SNDCTL_DSP_GETOSPACE a =
     (let si = the_slot g info;
          write_avail =
            (if stream si \<noteq> LIBMARU_STREAM_MASTER lm
             then maru_stream_write_avail lm (stream si)
             else ucast (fragsize si * frags si - 1))
      in if fragsize si = 0 then (g, [], Abort)
         else
           case PREP_UARG_OUT sizeof_audio_buf_info (in_bufsize a) (out_bufsize a) of
             Some r \<Rightarrow> (g, [], r)
           | None \<Rightarrow>
               (g, [], Reply_ioctl (Out_buf_info
                  \<lparr> abi_fragments = ucast (write_avail div ucast (fragsize si)),
                    abi_fragstotal = frags si,
                    abi_fragsize = fragsize si,
                    abi_bytes = ucast write_avail \<rparr>)))"
| "maru_ioctl lm g info SNDCTL_DSP_GETBLKSIZE a =
     with_out_int a g (reply_int g (fragsize (the_slot g info)))"
| "maru_ioctl lm g info SNDCTL_DSP_SETFRAGMENT a =
     (let si = the_slot g info in
      if stream si \<noteq> LIBMARU_STREAM_MASTER lm then (g, [], Reply_err EINVAL)
      else
        with_inout_int a g
          (let i = in_buf a;
               frags_req = drop_bit 16 i AND 0xffff;
               shift = unat (i AND 0xffff)
           in if 31 \<le> shift then (g, [], Undefined)
              else
                let fragsz = push_bit shift 1
                in if sint fragsz < 512 \<or> sint frags_req < 2 then (g, [], Reply_err EINVAL)
                   else (set_slot g (fh info)
                           (si\<lparr>fragsize := fragsz, frags := next_pot frags_req\<rparr>),
                         [], Reply_ioctl (Out_int i))))"
| "maru_ioctl lm g info SNDCTL_DSP_GETODELAY a =
     with_out_int a g
       (let si = the_slot g info;
            lat = maru_stream_current_latency lm (stream si);
            bytes :: 64 word =
              word_of_int (sint (lat * ucast (sample_rate si) * ucast (channels si)
                                   * ucast (bits si)) sdiv 8);
            scaled :: 64 word = word_of_int (sint bytes sdiv 1000000)
        in reply_int g (if sint lat < 0 then 0 else ucast scaled))"
| "maru_ioctl lm g info SNDCTL_DSP_SYNC a =
     (let si = the_slot g info in
      if stream si \<noteq> LIBMARU_STREAM_MASTER lm
      then
        let lat = maru_stream_current_latency lm (stream si)
        in (g, (if 0 \<le> sint lat then [Usleep lat] else []), Reply_ioctl Out_null)
      else (g, [], Reply_ioctl Out_null))"
| "maru_ioctl lm g info SNDCTL_DSP_GETOPTR a =
     (let si = the_slot g info;
          driver_write_cnt =
            (if stream si \<noteq> LIBMARU_STREAM_MASTER lm
             then write_cnt si + maru_stream_write_avail lm (stream si)
                    - ucast (fragsize si * frags si - 1)
             else 0)
      in if fragsize si = 0 \<or> fragsize si * frags si = 0 then (g, [], Abort)
         else
           case PREP_UARG_OUT sizeof_count_info (in_bufsize a) (out_bufsize a) of
             Some r \<Rightarrow> (g, [], r)
           | None \<Rightarrow>
               (g, [], Reply_ioctl (Out_count_info
                  \<lparr> ci_bytes = ucast driver_write_cnt,
                    ci_blocks = ucast (driver_write_cnt div ucast (fragsize si)),
                    ci_ptr = ucast (driver_write_cnt mod ucast (fragsize si * frags si)) \<rparr>)))"
| "maru_ioctl lm g info SNDCTL_DSP_SETPLAYVOL a =
     with_inout_int a g
       (let si = the_slot g info;
            i = in_buf a;
            left = i AND 0xff
        in if lock g then (g, [], Blocked)
           else
             let g1 = g\<lparr>lock := True\<rparr>;
                 (ok, ev, si1) = set_volume lm g1 si left
             in if \<not> ok then (g1, ev, Reply_err EIO)
                else (set_slot (g1\<lparr>lock := False\<rparr>) (fh info) si1, ev,
                      Reply_ioctl (Out_int (push_bit 8 left OR left))))"
| "maru_ioctl lm g info SNDCTL_DSP_GETPLAYVOL a =
     with_out_int a g
       (let si = the_slot g info
        in if lock g then (g, [], Blocked)
           else
             let g1 = g\<lparr>lock := True\<rparr>;
                 (ok, si1) = read_volume lm g1 si
             in if \<not> ok then (g1, [], Reply_err EIO)
                else (set_slot (g1\<lparr>lock := False\<rparr>) (fh info) si1, [],
                      Reply_ioctl (Out_int (vol si1 OR push_bit 8 (vol si1)))))"
| "maru_ioctl lm g info SNDCTL_DSP_SETTRIGGER a =
     with_inout_int a g (reply_int g (in_buf a))"
| "maru_ioctl lm g info SNDCTL_DSP_POST a = (g, [], Reply_ioctl Out_null)"
| "maru_ioctl lm g info (Other_cmd c) a = (g, [], Reply_err EINVAL)"

subsection \<open>Poll, release, open and the readiness notifier\<close>

definition maru_update_pollhandle :: "cuse_stream_info \<Rightarrow> pollhandle option
    \<Rightarrow> event list \<times> cuse_stream_info" where
  "maru_update_pollhandle si new_ph =
     ((case ph si of None \<Rightarrow> [] | Some tmp_ph \<Rightarrow> [Pollhandle_destroy tmp_ph]),
      si\<lparr>ph := new_ph\<rparr>)"

definition maru_poll :: "libmaru \<Rightarrow> cuse_maru_state \<Rightarrow> fuse_file_info \<Rightarrow> pollhandle option
    \<Rightarrow> outcome" where
  "maru_poll lm g info new_ph =
    (let (ev, si) = maru_update_pollhandle (the_slot g info) new_ph;
         g1 = set_slot g (fh info) si
     in if error si then (g1, ev, Reply_poll POLLHUP)
        else if stream si = LIBMARU_STREAM_MASTER lm
                \<or> ucast (fragsize si) \<le> maru_stream_write_avail lm (stream si)
        then (g1, ev, Reply_poll POLLOUT)
        else (g1, ev, Reply_poll POLLNONE))"

text \<open>What the \<^verbatim>\<open>memset\<close> of \<^verbatim>\<open>maru_release\<close> leaves in a slot: every field zero.\<close>

definition zero_slot :: cuse_stream_info where
  "zero_slot = \<lparr> active = False, stream = 0, sample_rate = 0, channels = 0, bits = 0,
                 fragsize = 0, frags = 0, write_cnt = 0, nonblock = False, error = False,
                 ph = None, vol = 0, process_name = [] \<rparr>"

definition maru_release :: "cuse_maru_state \<Rightarrow> fuse_file_info \<Rightarrow> outcome" where
  "maru_release g info =
    (let si = the_slot g info
     in (set_slot g (fh info) zero_slot,
         Stream_close (stream si)
           # (case ph si of None \<Rightarrow> [] | Some p \<Rightarrow> [Pollhandle_destroy p]),
         Reply_ok))"

fun find_inactive :: "cuse_stream_info list \<Rightarrow> nat \<Rightarrow> nat option" where
  "find_inactive [] i = None"
| "find_inactive (si # rest) i = (if \<not> active si then Some i else find_inactive rest (Suc i))"

text \<open>
  \<open>pname\<close> is what \<^verbatim>\<open>get_process_name\<close> reads from \<^verbatim>\<open>/proc\<close>, \<open>None\<close> when the
  request carries no context.
\<close>

definition maru_open :: "libmaru \<Rightarrow> cuse_maru_state \<Rightarrow> u32 \<Rightarrow> string option \<Rightarrow> outcome" where
  "maru_open lm g open_flags pname =
    (if open_flags AND (O_WRONLY OR O_RDONLY OR O_RDWR) \<noteq> O_WRONLY
     then (g, [], Reply_err EACCES)
     else if lock g then (g, [], Blocked)
     else
       case find_inactive (stream_info g) 0 of
         None \<Rightarrow> (g, [], Reply_err EBUSY)
       | Some i \<Rightarrow>
           let si = stream_info g ! i;
               si1 = si\<lparr> active := True,
                         sample_rate := g_sample_rate g,
                         channels := 2,
                         bits := 16,
                         stream := LIBMARU_STREAM_MASTER lm,
                         fragsize := g_fragsize g,
                         frags := g_frags g \<rparr>;
               si2 = (case pname of None \<Rightarrow> si1 | Some n \<Rightarrow> si1\<lparr>process_name := n\<rparr>)
           in (set_slot g i si2, [], Reply_open i))"

definition write_notification_cb :: "cuse_maru_state \<Rightarrow> nat \<Rightarrow> cuse_maru_state \<times> event list" where
  "write_notification_cb g i =
    (let si = stream_info g ! i
     in case ph si of
          None \<Rightarrow> (g, [])
        | Some p \<Rightarrow> (set_slot g i (si\<lparr>ph := None\<rparr>), [Notify_poll p, Pollhandle_destroy p]))"

subsection \<open>Requests in sequence\<close>

text \<open>
  The operations table \<^verbatim>\<open>maru_op\<close> on one open file, together with the transport's
  callback: what one request, or one notification, does to the device.
\<close>

datatype request =
    Write libmaru size_t
  | Ioctl libmaru oss_cmd ioctl_args
  | Poll libmaru "pollhandle option"
  | Release
  | Notification

fun maru_op :: "cuse_maru_state \<Rightarrow> fuse_file_info \<Rightarrow> request \<Rightarrow> outcome" where
  "maru_op g info (Write lm sz) = maru_write lm g info sz"
| "maru_op g info (Ioctl lm cmd a) = maru_ioctl lm g info cmd a"
| "maru_op g info (Poll lm p) = maru_poll lm g info p"
| "maru_op g info Release = maru_release g info"
| "maru_op g info Notification =
     (case write_notification_cb g (fh info) of (g1, ev) \<Rightarrow> (g1, ev, No_reply))"

text \<open>
  A client that writes again and again: the replies it gets, in order, and the state it
  leaves. A write that ends the process is the last one.
\<close>

fun maru_writes :: "cuse_maru_state \<Rightarrow> fuse_file_info \<Rightarrow> (libmaru \<times> size_t) list
    \<Rightarrow> cuse_maru_state \<times> reply list" where
  "maru_writes g info [] = (g, [])"
| "maru_writes g info ((lm, sz) # rest) =
     (case maru_write lm g info sz of
        (g1, ev, r) \<Rightarrow>
          if r = Abort then (g1, [r])
          else (case maru_writes g1 info rest of (g2, rs) \<Rightarrow> (g2, r # rs)))"

fun accepted :: "reply list \<Rightarrow> nat" where
  "accepted [] = 0"
| "accepted (Reply_write k # rs) = unat k + accepted rs"
| "accepted (r # rs) = accepted rs"

text \<open>The writes a handler handed to the transport: stream handle and byte count.\<close>

fun stream_writes :: "event list \<Rightarrow> (maru_stream \<times> size_t) list" where
  "stream_writes [] = []"
| "stream_writes (Stream_write h k # es) = (h, k) # stream_writes es"
| "stream_writes (e # es) = stream_writes es"

text \<open>The stream handles a handler asked the transport to close.\<close>

fun stream_closes :: "event list \<Rightarrow> maru_stream list" where
  "stream_closes [] = []"
| "stream_closes (Stream_close h # es) = h # stream_closes es"
| "stream_closes (e # es) = stream_closes es"

subsection \<open>A device to run the handlers on\<close>

text \<open>
  A transport with one free stream, handle 0, that has room for 4098 bytes, takes every
  write in full and accepts every volume; a slot as \<^verbatim>\<open>maru_open\<close> leaves it with the
  fragment layout of the spec's scenario (8 fragments of 2048 bytes); and a device with
  that one slot and the volume range 0 to 1000.
\<close>

definition demo_transport :: libmaru where
  "demo_transport =
     \<lparr> LIBMARU_STREAM_MASTER = 0xFFFFFFFF,
       LIBMARU_VOLUME_MUTE = - 32768,
       maru_find_available_stream = 0,
       maru_stream_open = (\<lambda>h d. True),
       maru_stream_write_avail = (\<lambda>h. 4098),
       maru_stream_write = (\<lambda>h k. k),
       maru_stream_set_volume = (\<lambda>h v. True),
       maru_stream_get_volume = (\<lambda>h. Some 500),
       maru_stream_current_latency = (\<lambda>h. 0),
       maru_get_num_streams = 1,
       maru_get_stream_desc = (\<lambda>h. None) \<rparr>"

definition demo_slot :: cuse_stream_info where
  "demo_slot =
     \<lparr> active = True, stream = 0xFFFFFFFF, sample_rate = 48000, channels = 2, bits = 16,
       fragsize = 2048, frags = 8, write_cnt = 0, nonblock = False, error = False,
       ph = None, vol = 0, process_name = ''player'' \<rparr>"

definition demo_state :: cuse_maru_state where
  "demo_state =
     \<lparr> lock = False, g_sample_rate = 48000, g_fragsize = 2048, g_frags = 8,
       min_volume = 0, max_volume = 1000, stream_info = [demo_slot] \<rparr>"

definition demo_info :: fuse_file_info where
  "demo_info = \<lparr> fh = 0, flags = O_WRONLY OR O_NONBLOCK \<rparr>"


text \<open>
  Variations: a transport that takes no byte of any write, one whose buffer has room for
  less than a frame, one that refuses every volume request; the device once its slot is
  bound to stream 0 with a poll handle waiting; a control request with both buffers in
  place; and a client writing three times.
\<close>

definition stalled_transport :: libmaru where
  "stalled_transport = demo_transport\<lparr>maru_stream_write := (\<lambda>h k. 0)\<rparr>"

definition full_transport :: libmaru where
  "full_transport = demo_transport\<lparr>maru_stream_write_avail := (\<lambda>h. 3)\<rparr>"

definition failing_transport :: libmaru where
  "failing_transport = demo_transport\<lparr>maru_stream_set_volume := (\<lambda>h v. False),
                                          maru_stream_get_volume := (\<lambda>h. None)\<rparr>"

definition bound_state :: cuse_maru_state where
  "bound_state = demo_state\<lparr>stream_info := [demo_slot\<lparr>stream := 0, ph := Some 7\<rparr>]\<rparr>"

definition demo_args :: "s32 \<Rightarrow> ioctl_args" where
  "demo_args i = \<lparr> in_buf = i, in_bufsize = 4, out_bufsize = 4 \<rparr>"

definition three_writes :: "(libmaru \<times> size_t) list" where
  "three_writes = [(demo_transport, 10), (stalled_transport, 8), (demo_transport, 6)]"

declare pot_from.simps [simp del]

section \<open>Basic facts\<close>

lemma the_slot_set_slot [simp]:
  "fh info < length (stream_info g) \<Longrightarrow> the_slot (set_slot g (fh info) s) info = s"
  by (simp add: the_slot_def set_slot_def)

lemma length_set_slot [simp]:
  "length (stream_info (set_slot g i s)) = length (stream_info g)"
  by (simp add: set_slot_def)

lemma set_slot_set_slot [simp]:
  "set_slot (set_slot g i s) i t = set_slot g i t"
  by (simp add: set_slot_def)

lemma lock_set_slot [simp]: "lock (set_slot g i s) = lock g"
  by (simp add: set_slot_def)

lemma the_slot_lock [simp]: "the_slot (g\<lparr>lock := b\<rparr>) info = the_slot g info"
  by (simp add: the_slot_def)

lemma stream_writes_append [simp]:
  "stream_writes (xs @ ys) = stream_writes xs @ stream_writes ys"
  by (induction xs rule: stream_writes.induct) auto

lemma bind_slot_cases:
  assumes "bind_slot lm s = (ok, ev, s1)"
  shows "stream_writes ev = []"
    and "error s1 = error s" and "write_cnt s1 = write_cnt s"
    and "channels s1 = channels s" and "bits s1 = bits s" and "nonblock s1 = nonblock s"
    and "\<not> ok \<Longrightarrow> s1 = s"
  using assms by (auto simp: bind_slot_def init_stream_def Let_def split: if_splits)

lemma frame_size_bind:
  "bind_slot lm s = (ok, ev, s1) \<Longrightarrow> frame_size s1 = frame_size s"
  by (simp add: frame_size_def bind_slot_cases)

subsection \<open>Words read as numbers\<close>

lemma unat_ucast_32_64: "unat (ucast (x :: 32 word) :: 64 word) = unat x"
proof -
  have "unat x < 2 ^ 32" using unsigned_less [of x] by simp
  then have "unat x < 2 ^ 64" by simp
  then show ?thesis by (simp add: unsigned_ucast_eq take_bit_nat_eq_self)
qed

lemma ucast_le_64: "(ucast (x :: 32 word) :: 64 word) \<le> y \<longleftrightarrow> unat x \<le> unat y"
  by (simp add: word_le_nat_alt unat_ucast_32_64)

lemma unat_round_down:
  "unat ((a :: 64 word) div b * b) = unat a div unat b * unat b"
proof -
  have "unat a div unat b * unat b \<le> unat a" by simp
  also have "\<dots> < 2 ^ LENGTH(64)" by (rule unsigned_less)
  finally have "unat (a div b) * unat b < 2 ^ LENGTH(64)" by (simp add: unat_div)
  then have "unat (a div b * b) = unat (a div b) * unat b"
    by (rule unat_mult_lem [THEN iffD1])
  then show ?thesis by (simp add: unat_div)
qed

lemma unat_frame_size:
  assumes "unat (channels si) * unat (bits si) < 2 ^ 32"
  shows "unat (frame_size si) = unat (channels si) * unat (bits si) div 8"
proof -
  from assms have "unat (channels si) * unat (bits si) < 2 ^ LENGTH(32)" by simp
  then have "unat (channels si * bits si) = unat (channels si) * unat (bits si)"
    by (rule unat_mult_lem [THEN iffD1])
  then show ?thesis by (simp add: frame_size_def unat_div)
qed

lemma unat_clamp:
  fixes sz avail :: "64 word" and f :: "32 word"
  shows "unat (if sz < avail div ucast f * ucast f then sz else avail div ucast f * ucast f)
         = min (unat sz) (unat avail div unat f * unat f)"
  by (simp add: word_less_nat_alt unat_round_down unat_ucast_32_64 min_def)

subsection \<open>Unfolding the device\<close>

lemmas demo_defs = demo_state_def demo_slot_def demo_info_def demo_transport_def
  the_slot_def set_slot_def O_WRONLY_def O_NONBLOCK_def

lemmas prep_defs = with_inout_int_def with_out_int_def PREP_UARG_INOUT_def PREP_UARG_OUT_def
  ioctl_prep_uarg_def reply_int_def sizeof_int_def

section \<open>Non-blocking writes\<close>

text \<open>
  Claim C1. A write of \<open>N > 0\<close> bytes on a slot without the error flag, in non-blocking
  mode (the \<^verbatim>\<open>O_NONBLOCK\<close> flag of the open file, or the slot's sticky flag), on a
  slot that is bound or that this write binds: with \<open>F\<close> the frame size
  \<open>channels * bits / 8\<close> and \<open>A\<close> the write-availability the transport reports for the
  slot's stream, rounded down to a multiple of \<open>F\<close>, the handler hands exactly
  \<open>min N A\<close> bytes to the transport. When that amount is zero nothing is handed over and
  the reply is \<^verbatim>\<open>EAGAIN\<close>; when the transport takes all of it, the reply is a write
  of exactly \<open>min N A\<close> bytes. The frame size is positive and is computed without
  overflow, as it is for every format \<^verbatim>\<open>maru_open\<close> sets up.
\<close>

theorem maru_write_nonblock:
  assumes slot: "fh info < length (stream_info g)"
    and noerr: "\<not> error (the_slot g info)"
    and pos: "sz \<noteq> 0"
    and nb: "flags info AND O_NONBLOCK \<noteq> 0 \<or> nonblock (the_slot g info)"
    and bound: "bind_slot lm (the_slot g info) = (True, ev0, s1)"
    and frame: "8 \<le> unat (channels (the_slot g info)) * unat (bits (the_slot g info))"
               "unat (channels (the_slot g info)) * unat (bits (the_slot g info)) < 2 ^ 32"
    and F: "F = unat (channels (the_slot g info)) * unat (bits (the_slot g info)) div 8"
    and A: "A = unat (maru_stream_write_avail lm (stream s1)) div F * F"
    and n: "n = min (unat sz) A"
  shows "(n = 0 \<longrightarrow> snd (snd (maru_write lm g info sz)) = Reply_err EAGAIN
                   \<and> stream_writes (fst (snd (maru_write lm g info sz))) = [])
       \<and> (0 < n \<longrightarrow> stream_writes (fst (snd (maru_write lm g info sz))) = [(stream s1, of_nat n)]
                   \<and> unat (of_nat n :: 64 word) = n
                   \<and> (maru_stream_write lm (stream s1) (of_nat n) = of_nat n
                        \<longrightarrow> snd (snd (maru_write lm g info sz)) = Reply_write (of_nat n)))"
proof -
  note bs = bind_slot_cases [OF bound]
  have fs: "unat (frame_size s1) = F"
    using frame F by (simp add: frame_size_bind [OF bound] unat_frame_size)
  have "0 < F" using frame F by simp
  then have fs0: "frame_size s1 \<noteq> 0" using fs by (metis unat_gt_0)
  define tw :: "64 word" where
    "tw = (if sz < maru_stream_write_avail lm (stream s1) div ucast (frame_size s1)
                     * ucast (frame_size s1)
           then sz
           else maru_stream_write_avail lm (stream s1) div ucast (frame_size s1)
                  * ucast (frame_size s1))"
  have tw: "unat tw = n"
    unfolding tw_def unat_clamp using fs A n by simp
  then have tw': "tw = of_nat n" by (metis of_nat_unat ucast_id)
  have nb1: "flags info AND O_NONBLOCK \<noteq> 0 \<or> nonblock s1" using nb bs by simp
  have w: "maru_write lm g info sz =
      (if tw = 0 then (set_slot g (fh info) s1, ev0, Reply_err EAGAIN)
       else if maru_stream_write lm (stream s1) tw = 0
       then (set_slot g (fh info) s1, ev0 @ [Stream_write (stream s1) tw], Reply_err EIO)
       else (set_slot g (fh info)
               (s1\<lparr>write_cnt := write_cnt s1 + maru_stream_write lm (stream s1) tw\<rparr>),
             ev0 @ [Stream_write (stream s1) tw],
             Reply_write (maru_stream_write lm (stream s1) tw)))"
    using noerr pos bound nb1 fs0
    by (simp add: maru_write_def Let_def tw_def)
  have z: "tw = 0 \<longleftrightarrow> n = 0" using tw by (metis unat_eq_zero)
  show ?thesis
    using z tw tw' bs(1) by (auto simp: w)
qed

theorem maru_write_nonblock_witness:
  "\<not> error (the_slot demo_state demo_info)
   \<and> flags demo_info AND O_NONBLOCK \<noteq> 0
   \<and> fst (bind_slot demo_transport (the_slot demo_state demo_info))
   \<and> stream_writes (fst (snd (maru_write demo_transport demo_state demo_info 10))) = [(0, 10)]
   \<and> snd (snd (maru_write demo_transport demo_state demo_info 10)) = Reply_write 10
   \<and> snd (snd (maru_write full_transport demo_state demo_info 10)) = Reply_err EAGAIN"
proof -
  let ?lm0 = full_transport
  have h1: "fh demo_info < length (stream_info demo_state)" by (simp add: demo_defs full_transport_def)
  have h2: "\<not> error (the_slot demo_state demo_info)" by (simp add: demo_defs full_transport_def)
  have h3: "(10 :: 64 word) \<noteq> 0" by simp
  have h4: "flags demo_info AND O_NONBLOCK \<noteq> 0 \<or> nonblock (the_slot demo_state demo_info)"
    by (simp add: demo_defs full_transport_def)
  obtain ev0 where h5: "bind_slot demo_transport (the_slot demo_state demo_info)
      = (True, ev0, demo_slot\<lparr>stream := 0\<rparr>)"
    by (simp add: demo_defs full_transport_def bind_slot_def init_stream_def)
  obtain ev1 where h5': "bind_slot ?lm0 (the_slot demo_state demo_info)
      = (True, ev1, demo_slot\<lparr>stream := 0\<rparr>)"
    by (simp add: demo_defs full_transport_def bind_slot_def init_stream_def)
  have h6: "8 \<le> unat (channels (the_slot demo_state demo_info)) * unat (bits (the_slot demo_state demo_info))"
    by (simp add: demo_defs full_transport_def)
  have h7: "unat (channels (the_slot demo_state demo_info)) * unat (bits (the_slot demo_state demo_info)) < 2 ^ 32"
    by (simp add: demo_defs full_transport_def)
  have h8: "(4 :: nat) = unat (channels (the_slot demo_state demo_info)) * unat (bits (the_slot demo_state demo_info)) div 8"
    by (simp add: demo_defs full_transport_def)
  have h9: "(4096 :: nat) = unat (maru_stream_write_avail demo_transport (stream (demo_slot\<lparr>stream := 0\<rparr>))) div 4 * 4"
    by (simp add: demo_defs full_transport_def)
  have h9': "(0 :: nat) = unat (maru_stream_write_avail ?lm0 (stream (demo_slot\<lparr>stream := 0\<rparr>))) div 4 * 4"
    by (simp add: demo_defs full_transport_def)
  have h10: "(10 :: nat) = min (unat (10 :: 64 word)) 4096" by simp
  have h10': "(0 :: nat) = min (unat (10 :: 64 word)) 0" by simp
  have a: "maru_stream_write demo_transport (stream (demo_slot\<lparr>stream := 0\<rparr>)) (of_nat 10) = of_nat 10"
    by (simp add: demo_defs full_transport_def)
  show ?thesis
    using maru_write_nonblock [OF h1 h2 h3 h4 h5 h6 h7 h8 h9 h10]
          maru_write_nonblock [OF h1 h2 h3 h4 h5' h6 h7 h8 h9' h10'] a h2 h4 h5
    by (simp add: demo_defs full_transport_def)
qed

section \<open>The result of the transport write\<close>

text \<open>
  Claim C2, as amended. A write whose transport result is zero bytes is answered with
  \<^verbatim>\<open>EIO\<close> and leaves the slot's error flag and \<^verbatim>\<open>write_cnt\<close> as they were:
  \<^verbatim>\<open>maru_write\<close> never changes the error flag, and it answers \<^verbatim>\<open>EPIPE\<close> exactly
  when the flag is set on entry. When the transport result is positive the reply is a
  write of exactly that many bytes and \<^verbatim>\<open>write_cnt\<close> has grown by exactly that amount.
\<close>

theorem maru_write_result:
  assumes slot: "fh info < length (stream_info g)"
    and run: "maru_write lm g info sz = (g', ev, r)"
  shows "error (the_slot g' info) = error (the_slot g info)
       \<and> (r = Reply_err EPIPE \<longleftrightarrow> error (the_slot g info))
       \<and> (r = Reply_err EIO \<longleftrightarrow>
            (\<exists>h k. stream_writes ev = [(h, k)] \<and> maru_stream_write lm h k = 0))
       \<and> (r = Reply_err EIO \<longrightarrow>
            write_cnt (the_slot g' info) = write_cnt (the_slot g info))
       \<and> (\<forall>h k. stream_writes ev = [(h, k)] \<and> maru_stream_write lm h k \<noteq> 0 \<longrightarrow>
            r = Reply_write (maru_stream_write lm h k)
            \<and> write_cnt (the_slot g' info)
                = write_cnt (the_slot g info) + maru_stream_write lm h k)"
proof -
  obtain ok ev0 s1 where b: "bind_slot lm (the_slot g info) = (ok, ev0, s1)"
    by (cases "bind_slot lm (the_slot g info)") auto
  note bs = bind_slot_cases [OF b]
  have 1: "error (the_slot g' info) = error (the_slot g info)"
    using slot run b bs by (auto simp: maru_write_def Let_def split: if_splits)
  have 2: "r = Reply_err EPIPE \<longleftrightarrow> error (the_slot g info)"
    using slot run b bs by (auto simp: maru_write_def Let_def split: if_splits)
  have 3: "r = Reply_err EIO \<longleftrightarrow>
            (\<exists>h k. stream_writes ev = [(h, k)] \<and> maru_stream_write lm h k = 0)"
    using slot run b bs by (auto simp: maru_write_def Let_def split: if_splits)
  have 4: "r = Reply_err EIO \<longrightarrow> write_cnt (the_slot g' info) = write_cnt (the_slot g info)"
    using slot run b bs by (auto simp: maru_write_def Let_def split: if_splits)
  have 5: "\<forall>h k. stream_writes ev = [(h, k)] \<and> maru_stream_write lm h k \<noteq> 0 \<longrightarrow>
            r = Reply_write (maru_stream_write lm h k)
            \<and> write_cnt (the_slot g' info)
                = write_cnt (the_slot g info) + maru_stream_write lm h k"
    using slot run b bs by (auto simp: maru_write_def Let_def split: if_splits)
  from 1 2 3 4 5 show ?thesis by blast
qed

lemma stalled_run:
  "maru_write stalled_transport bound_state demo_info 10
     = (bound_state, [Stream_write 0 10], Reply_err EIO)"
  by (simp add: maru_write_def bind_slot_def frame_size_def demo_defs stalled_transport_def bound_state_def Let_def)

lemma resumed_run:
  "maru_write demo_transport bound_state demo_info 10
     = (set_slot bound_state 0 (the_slot bound_state demo_info\<lparr>write_cnt := 10\<rparr>),
        [Stream_write 0 10], Reply_write 10)"
  by (simp add: maru_write_def bind_slot_def frame_size_def demo_defs stalled_transport_def bound_state_def Let_def)

theorem maru_write_result_witness:
  "fh demo_info < length (stream_info bound_state)
   \<and> maru_write stalled_transport bound_state demo_info 10
       = (bound_state, [Stream_write 0 10], Reply_err EIO)
   \<and> \<not> error (the_slot bound_state demo_info)
   \<and> maru_write demo_transport bound_state demo_info 10
       = (set_slot bound_state 0 (the_slot bound_state demo_info\<lparr>write_cnt := 10\<rparr>),
          [Stream_write 0 10], Reply_write 10)
   \<and> write_cnt (the_slot (set_slot bound_state 0
                   (the_slot bound_state demo_info\<lparr>write_cnt := 10\<rparr>)) demo_info)
       = write_cnt (the_slot bound_state demo_info) + 10"
proof -
  have h: "fh demo_info < length (stream_info bound_state)" by (simp add: demo_defs stalled_transport_def bound_state_def)
  have w: "maru_stream_write demo_transport 0 10 = 10" by (simp add: demo_defs stalled_transport_def bound_state_def)
  show ?thesis
    using maru_write_result [OF h stalled_run] maru_write_result [OF h resumed_run] h w
    by (simp add: stalled_run resumed_run)
qed

text \<open>
  Claim C2 as it is stated fails: on the bound slot of the example, a write that the
  transport answers with zero bytes is reported as \<^verbatim>\<open>EIO\<close>, the slot's error flag
  stays clear, and the next write on that slot is accepted instead of failing with
  \<^verbatim>\<open>EPIPE\<close>.
\<close>

theorem maru_write_zero_not_terminal:
  "snd (snd (maru_write stalled_transport bound_state demo_info 10)) = Reply_err EIO
   \<and> \<not> error (the_slot (fst (maru_write stalled_transport bound_state demo_info 10)) demo_info)
   \<and> snd (snd (maru_write demo_transport
                  (fst (maru_write stalled_transport bound_state demo_info 10)) demo_info 10))
       = Reply_write 10"
  by (simp add: stalled_run resumed_run) (simp add: demo_defs stalled_transport_def bound_state_def)

section \<open>The fragment layout\<close>

subsection \<open>The packed word\<close>

lemma and_ffff: "(w :: 32 word) AND 0xffff = take_bit 16 w"
proof -
  have "(0xffff :: 32 word) = mask 16" by (simp add: mask_eq_exp_minus_1)
  then show ?thesis by (simp add: take_bit_eq_mask)
qed

lemma unat_low16: "unat ((w :: 32 word) AND 0xffff) = unat w mod 65536"
proof -
  have "unat (take_bit 16 w) = take_bit 16 (unat w)" by (rule unsigned_take_bit_eq)
  also have "\<dots> = unat w mod 2 ^ 16" by (rule take_bit_eq_mod)
  finally show ?thesis unfolding and_ffff by simp
qed

lemma unat_high16: "unat (drop_bit 16 (w :: 32 word) AND 0xffff) = unat w div 65536"
proof -
  have "unat w < 2 ^ 32" using unsigned_less [of w] by simp
  then have small: "unat w div 65536 < 65536" by simp
  have "unat (drop_bit 16 w) = drop_bit 16 (unat w)" by (rule unat_drop_bit_eq)
  also have "\<dots> = unat w div 2 ^ 16" by (rule drop_bit_eq_div)
  finally have "unat (drop_bit 16 w) = unat w div 65536" by simp
  then show ?thesis using small unfolding unat_low16 by simp
qed

lemma sint_small:
  assumes "unat (w :: 32 word) < 2 ^ 31"
  shows "sint w = int (unat w)"
proof -
  have "int (unat w) < int (2 ^ 31)" using assms by (simp only: of_nat_less_iff)
  then have "int (unat w) < 2 ^ 31" by simp
  moreover have "- (2 ^ 31) \<le> int (unat w)" by (rule order_trans [of _ 0]) simp_all
  ultimately have "signed_take_bit 31 (int (unat w)) = int (unat w)"
    by (rule signed_take_bit_int_eq_self [rotated])
  moreover have "sint w = signed_take_bit 31 (uint w)"
    using sint_uint [of w] by simp
  ultimately show ?thesis by (simp only: uint_nat)
qed

lemma unat_push_bit_1:
  assumes "n \<le> 30"
  shows "unat (push_bit n (1 :: 32 word)) = 2 ^ n"
proof -
  have "(2 :: nat) ^ n \<le> 2 ^ 30" using assms by (rule power_increasing) simp
  then have lt: "(2 :: nat) ^ n < 2 ^ 32" by simp
  have "unat (push_bit n (1 :: 32 word)) = take_bit 32 (push_bit n (unat (1 :: 32 word)))"
    using unsigned_push_bit_eq [of n "1 :: 32 word", where ?'a = nat] by simp
  also have "\<dots> = take_bit 32 ((2 :: nat) ^ n)" by (simp add: push_bit_eq_mult)
  also have "\<dots> = 2 ^ n" using lt by (rule take_bit_nat_eq_self)
  finally show ?thesis .
qed

subsection \<open>Rounding up to a power of two\<close>

lemma pot_from_ge: "0 < p \<Longrightarrow> v \<le> pot_from p v"
proof (induction p v rule: pot_from.induct)
  case (1 p v)
  then show ?case by (subst pot_from.simps) auto
qed

lemma pot_from_lt: "0 < p \<Longrightarrow> p < 2 * v \<Longrightarrow> pot_from p v < 2 * v"
proof (induction p v rule: pot_from.induct)
  case (1 p v)
  then show ?case by (subst pot_from.simps) auto
qed

lemma pot_from_power: "\<exists>k. pot_from (2 ^ j) v = 2 ^ k"
proof (induction "2 ^ j :: nat" v arbitrary: j rule: pot_from.induct)
  case (1 v)
  show ?case
  proof (cases "v \<le> 2 ^ j")
    case True
    then show ?thesis by (subst pot_from.simps) auto
  next
    case False
    have "\<exists>k. pot_from (2 ^ Suc j) v = 2 ^ k"
      using 1 [of "Suc j"] False by simp
    then show ?thesis using False by (subst pot_from.simps) simp
  qed
qed

lemma pot_from_least: "v \<le> 2 ^ k \<Longrightarrow> j \<le> k \<Longrightarrow> pot_from (2 ^ j) v \<le> 2 ^ k"
proof (induction "2 ^ j :: nat" v arbitrary: j rule: pot_from.induct)
  case (1 v)
  show ?case
  proof (cases "v \<le> 2 ^ j")
    case True
    then show ?thesis using 1(3) by (subst pot_from.simps) (simp add: power_increasing)
  next
    case False
    then have "(2 :: nat) ^ j < 2 ^ k" using 1(2) by linarith
    then have "j < k" by (rule power_less_imp_less_exp [rotated]) simp
    then have "pot_from (2 ^ Suc j) v \<le> 2 ^ k"
      using 1(1) [of "Suc j"] False 1(2) by simp
    then show ?thesis using False by (subst pot_from.simps) simp
  qed
qed

lemma unat_next_pot:
  assumes "0 < unat v" "unat v < 2 ^ 16"
  shows "unat (next_pot v) = pot_from 1 (unat v)"
proof -
  have "pot_from 1 (unat v) < 2 * unat v" using assms by (simp add: pot_from_lt)
  then have "pot_from 1 (unat v) < 2 ^ 32" using assms by simp
  then show ?thesis by (simp add: next_pot_def unat_of_nat)
qed

subsection \<open>The request while the slot is unbound\<close>

lemma setfragment_unbound:
  assumes unbound: "stream (the_slot g info) = LIBMARU_STREAM_MASTER lm"
    and bufs: "in_bufsize a = 4" "out_bufsize a = 4"
    and rep: "unat (in_buf a) mod 65536 \<le> 30"
  shows "maru_ioctl lm g info SNDCTL_DSP_SETFRAGMENT a =
     (if 2 ^ (unat (in_buf a) mod 65536) < (512 :: nat) \<or> unat (in_buf a) div 65536 < 2
      then (g, [], Reply_err EINVAL)
      else (set_slot g (fh info)
              ((the_slot g info)\<lparr>fragsize := push_bit (unat (in_buf a) mod 65536) 1,
                                 frags := next_pot (drop_bit 16 (in_buf a) AND 0xffff)\<rparr>),
            [], Reply_ioctl (Out_int (in_buf a))))"
proof -
  let ?low = "unat (in_buf a) mod 65536"
  let ?cnt = "unat (in_buf a) div 65536"
  have sh: "unat (in_buf a AND 0xffff) = ?low" by (rule unat_low16)
  have u1: "unat (push_bit ?low (1 :: 32 word)) = 2 ^ ?low" using rep by (rule unat_push_bit_1)
  have "(2 :: nat) ^ ?low \<le> 2 ^ 30" using rep by (rule power_increasing) simp
  then have "unat (push_bit ?low (1 :: 32 word)) < 2 ^ 31" using u1 by simp
  then have s1: "sint (push_bit ?low (1 :: 32 word)) = int (2 ^ ?low)"
    using u1 by (simp add: sint_small)
  have u2: "unat (drop_bit 16 (in_buf a) AND 0xffff) = ?cnt" by (rule unat_high16)
  have "unat (in_buf a) < 2 ^ 32" using unsigned_less [of "in_buf a"] by simp
  then have "?cnt < 65536" by simp
  then have "unat (drop_bit 16 (in_buf a) AND 0xffff) < 2 ^ 31" using u2 by simp
  then have s2: "sint (drop_bit 16 (in_buf a) AND 0xffff) = int ?cnt"
    using u2 by (simp add: sint_small)
  have c1: "sint (push_bit ?low (1 :: 32 word)) < 512 \<longleftrightarrow> 2 ^ ?low < (512 :: nat)"
    unfolding s1 by linarith
  have c2: "sint (drop_bit 16 (in_buf a) AND 0xffff) < 2 \<longleftrightarrow> ?cnt < 2"
    unfolding s2 by linarith
  have c1': "sint ((2 :: 32 word) ^ ?low) < 512 \<longleftrightarrow> 2 ^ ?low < (512 :: nat)"
    using c1 by simp
  have r: "\<not> 31 \<le> ?low" using rep by simp
  show ?thesis
    using unbound bufs r
    by (simp add: prep_defs Let_def sh c1' c2)
qed

text \<open>
  Claim C3. A set-fragment-layout request on an unbound slot, with its buffers in place,
  packs the fragment count into the high 16 bits of the word and the exponent of the
  fragment size into the low 16 bits. When the size \<open>1 << low\<close> is an \<^verbatim>\<open>int\<close> of
  at least 512 and the count is at least 2, the request echoes its word back, stores the
  decoded fragment size unchanged and stores as fragment count the least power of two
  that is not below the requested count; nothing else in the device changes.
\<close>

theorem setfragment_valid:
  assumes slot: "fh info < length (stream_info g)"
    and unbound: "stream (the_slot g info) = LIBMARU_STREAM_MASTER lm"
    and bufs: "in_bufsize a = 4" "out_bufsize a = 4"
    and low: "low = unat (in_buf a) mod 65536"
    and cnt: "cnt = unat (in_buf a) div 65536"
    and rep: "low \<le> 30"
    and size: "512 \<le> (2 :: nat) ^ low"
    and count: "2 \<le> cnt"
    and run: "maru_ioctl lm g info SNDCTL_DSP_SETFRAGMENT a = (g', ev, r)"
  shows "r = Reply_ioctl (Out_int (in_buf a)) \<and> ev = []
       \<and> unat (fragsize (the_slot g' info)) = 2 ^ low
       \<and> (\<exists>k. unat (frags (the_slot g' info)) = 2 ^ k)
       \<and> cnt \<le> unat (frags (the_slot g' info))
       \<and> (\<forall>k. cnt \<le> 2 ^ k \<longrightarrow> unat (frags (the_slot g' info)) \<le> 2 ^ k)
       \<and> g' = set_slot g (fh info)
                ((the_slot g info)\<lparr>fragsize := fragsize (the_slot g' info),
                                   frags := frags (the_slot g' info)\<rparr>)"
proof -
  let ?req = "drop_bit 16 (in_buf a) AND 0xffff :: 32 word"
  have rep': "unat (in_buf a) mod 65536 \<le> 30" using rep low by simp
  have g': "g' = set_slot g (fh info)
              ((the_slot g info)\<lparr>fragsize := push_bit low 1, frags := next_pot ?req\<rparr>)"
    and r: "r = Reply_ioctl (Out_int (in_buf a))" and ev: "ev = []"
    using run size count unfolding setfragment_unbound [OF unbound bufs rep'] low cnt
    by simp_all
  have fs: "fragsize (the_slot g' info) = push_bit low 1"
    and fr: "frags (the_slot g' info) = next_pot ?req"
    using slot by (simp_all add: g')
  have u: "unat ?req = cnt" unfolding cnt by (rule unat_high16)
  have "unat (in_buf a) < 2 ^ 32" using unsigned_less [of "in_buf a"] by simp
  then have "cnt < 2 ^ 16" unfolding cnt by simp
  then have np: "unat (next_pot ?req) = pot_from 1 cnt"
    using unat_next_pot [of ?req] count u by simp
  have p1: "\<exists>k. pot_from 1 cnt = 2 ^ k" using pot_from_power [of 0 cnt] by simp
  have p2: "cnt \<le> pot_from 1 cnt" by (simp add: pot_from_ge)
  have p3: "\<forall>k. cnt \<le> 2 ^ k \<longrightarrow> pot_from 1 cnt \<le> 2 ^ k"
    using pot_from_least [of cnt _ 0] by simp
  show ?thesis
    using r ev p1 p2 p3 unat_push_bit_1 [OF rep]
    unfolding fs fr np by (simp add: g')
qed

lemma next_pot_3: "next_pot 3 = 4"
  by code_simp

lemma setfragment_run:
  "maru_ioctl demo_transport demo_state demo_info SNDCTL_DSP_SETFRAGMENT (demo_args 0x3000A)
     = (set_slot demo_state 0 (demo_slot\<lparr>fragsize := 1024, frags := 4\<rparr>), [],
        Reply_ioctl (Out_int 0x3000A))"
proof -
  have "drop_bit 16 (0x3000A :: 32 word) AND 0xffff = 3" by simp
  moreover have "unat ((0x3000A :: 32 word) AND 0xffff) = 10" by simp
  ultimately show ?thesis
    by (simp add: prep_defs Let_def demo_defs bound_state_def demo_args_def next_pot_3)
qed

theorem setfragment_valid_witness:
  "stream (the_slot demo_state demo_info) = LIBMARU_STREAM_MASTER demo_transport
   \<and> (10 :: nat) = unat (in_buf (demo_args 0x3000A)) mod 65536
   \<and> (3 :: nat) = unat (in_buf (demo_args 0x3000A)) div 65536
   \<and> maru_ioctl demo_transport demo_state demo_info SNDCTL_DSP_SETFRAGMENT (demo_args 0x3000A)
       = (set_slot demo_state 0 (demo_slot\<lparr>fragsize := 1024, frags := 4\<rparr>), [],
          Reply_ioctl (Out_int 0x3000A))
   \<and> unat (fragsize (the_slot (set_slot demo_state 0 (demo_slot\<lparr>fragsize := 1024, frags := 4\<rparr>))
                        demo_info)) = 2 ^ 10
   \<and> 3 \<le> unat (frags (the_slot (set_slot demo_state 0 (demo_slot\<lparr>fragsize := 1024, frags := 4\<rparr>))
                          demo_info))"
proof -
  have h1: "fh demo_info < length (stream_info demo_state)" by (simp add: demo_defs bound_state_def demo_args_def)
  have h2: "stream (the_slot demo_state demo_info) = LIBMARU_STREAM_MASTER demo_transport"
    by (simp add: demo_defs bound_state_def demo_args_def)
  have h3: "in_bufsize (demo_args 0x3000A) = 4" "out_bufsize (demo_args 0x3000A) = 4"
    by (simp_all add: demo_defs bound_state_def demo_args_def)
  have h4: "(10 :: nat) = unat (in_buf (demo_args 0x3000A)) mod 65536" by (simp add: demo_defs bound_state_def demo_args_def)
  have h5: "(3 :: nat) = unat (in_buf (demo_args 0x3000A)) div 65536" by (simp add: demo_defs bound_state_def demo_args_def)
  have h6: "(10 :: nat) \<le> 30" "512 \<le> (2 :: nat) ^ 10" "(2 :: nat) \<le> 3" by simp_all
  note t = setfragment_valid [OF h1 h2 h3 h4 h5 h6 setfragment_run]
  note c1 = t [THEN conjunct2, THEN conjunct2, THEN conjunct1]
  note c2 = t [THEN conjunct2, THEN conjunct2, THEN conjunct2, THEN conjunct2, THEN conjunct1]
  show ?thesis by (rule conjI h2 h4 h5 setfragment_run c1 c2)+
qed

text \<open>
  Claim C4. A set-fragment-layout request on a bound slot fails with \<^verbatim>\<open>EINVAL\<close>,
  whatever its buffers hold, and so does a request on an unbound slot, with its buffers
  in place, whose decoded fragment size is below 512 or whose fragment count is below 2.
  In both cases the device is left exactly as it was, so the slot keeps its fragment
  size and fragment count.
\<close>

theorem setfragment_rejected:
  assumes slot: "fh info < length (stream_info g)"
    and bad: "stream (the_slot g info) \<noteq> LIBMARU_STREAM_MASTER lm
              \<or> (in_bufsize a = 4 \<and> out_bufsize a = 4
                  \<and> unat (in_buf a) mod 65536 \<le> 30
                  \<and> ((2 :: nat) ^ (unat (in_buf a) mod 65536) < 512
                       \<or> unat (in_buf a) div 65536 < 2))"
  shows "maru_ioctl lm g info SNDCTL_DSP_SETFRAGMENT a = (g, [], Reply_err EINVAL)
       \<and> fragsize (the_slot (fst (maru_ioctl lm g info SNDCTL_DSP_SETFRAGMENT a)) info)
           = fragsize (the_slot g info)
       \<and> frags (the_slot (fst (maru_ioctl lm g info SNDCTL_DSP_SETFRAGMENT a)) info)
           = frags (the_slot g info)"
proof (cases "stream (the_slot g info) = LIBMARU_STREAM_MASTER lm")
  case True
  with bad have b: "in_bufsize a = 4" "out_bufsize a = 4"
    "unat (in_buf a) mod 65536 \<le> 30"
    "(2 :: nat) ^ (unat (in_buf a) mod 65536) < 512 \<or> unat (in_buf a) div 65536 < 2"
    by simp_all
  show ?thesis
    unfolding setfragment_unbound [OF True b(1,2,3)] using b(4) by simp
next
  case False
  then show ?thesis by (simp add: Let_def)
qed

theorem setfragment_rejected_witness:
  "stream (the_slot bound_state demo_info) \<noteq> LIBMARU_STREAM_MASTER demo_transport
   \<and> maru_ioctl demo_transport bound_state demo_info SNDCTL_DSP_SETFRAGMENT (demo_args 0x3000A)
       = (bound_state, [], Reply_err EINVAL)
   \<and> stream (the_slot demo_state demo_info) = LIBMARU_STREAM_MASTER demo_transport
   \<and> (2 :: nat) ^ (unat (in_buf (demo_args 0x30008)) mod 65536) < 512
   \<and> maru_ioctl demo_transport demo_state demo_info SNDCTL_DSP_SETFRAGMENT (demo_args 0x30008)
       = (demo_state, [], Reply_err EINVAL)
   \<and> unat (in_buf (demo_args 0x1000A)) div 65536 < 2
   \<and> maru_ioctl demo_transport demo_state demo_info SNDCTL_DSP_SETFRAGMENT (demo_args 0x1000A)
       = (demo_state, [], Reply_err EINVAL)"
proof -
  have h1: "fh demo_info < length (stream_info bound_state)"
    and h2: "fh demo_info < length (stream_info demo_state)"
    by (simp_all add: demo_defs bound_state_def demo_args_def)
  have b: "stream (the_slot bound_state demo_info) \<noteq> LIBMARU_STREAM_MASTER demo_transport"
    and u: "stream (the_slot demo_state demo_info) = LIBMARU_STREAM_MASTER demo_transport"
    by (simp_all add: demo_defs bound_state_def demo_args_def)
  have s0: "in_bufsize (demo_args 0x30008) = 4" "out_bufsize (demo_args 0x30008) = 4"
    "unat (in_buf (demo_args 0x30008)) mod 65536 \<le> 30"
    by (simp_all add: demo_defs bound_state_def demo_args_def)
  have s1: "(2 :: nat) ^ (unat (in_buf (demo_args 0x30008)) mod 65536) < 512"
    by (simp add: demo_defs bound_state_def demo_args_def)
  have c0: "in_bufsize (demo_args 0x1000A) = 4" "out_bufsize (demo_args 0x1000A) = 4"
    "unat (in_buf (demo_args 0x1000A)) mod 65536 \<le> 30"
    by (simp_all add: demo_defs bound_state_def demo_args_def)
  have c1: "unat (in_buf (demo_args 0x1000A)) div 65536 < 2"
    by (simp add: demo_defs bound_state_def demo_args_def)
  have r1: "maru_ioctl demo_transport bound_state demo_info SNDCTL_DSP_SETFRAGMENT
              (demo_args 0x3000A) = (bound_state, [], Reply_err EINVAL)"
    using setfragment_rejected [OF h1, of demo_transport "demo_args 0x3000A"] b by blast
  have r2: "maru_ioctl demo_transport demo_state demo_info SNDCTL_DSP_SETFRAGMENT
              (demo_args 0x30008) = (demo_state, [], Reply_err EINVAL)"
    using setfragment_rejected [OF h2, of demo_transport "demo_args 0x30008"] s0 s1 by blast
  have r3: "maru_ioctl demo_transport demo_state demo_info SNDCTL_DSP_SETFRAGMENT
              (demo_args 0x1000A) = (demo_state, [], Reply_err EINVAL)"
    using setfragment_rejected [OF h2, of demo_transport "demo_args 0x1000A"] c0 c1 by blast
  show ?thesis by (rule conjI b u s1 c1 r1 r2 r3)+
qed

section \<open>Output space\<close>

lemma unat_ucast_64_32:
  assumes "unat (w :: 64 word) < 2 ^ 32"
  shows "unat (ucast w :: 32 word) = unat w"
proof -
  have "unat (ucast w :: 32 word) = take_bit 32 (unat w)"
    using unsigned_ucast_eq [of w, where ?'a = nat and ?'c = 32] by simp
  also have "\<dots> = unat w" using assms by (rule take_bit_nat_eq_self)
  finally show ?thesis .
qed

lemma sint_ucast_small:
  assumes "unat (w :: 64 word) < 2 ^ 31"
  shows "sint (ucast w :: 32 word) = int (unat w)"
proof -
  have "unat w < 2 ^ 32" using assms by simp
  then have "unat (ucast w :: 32 word) = unat w" by (rule unat_ucast_64_32)
  then show ?thesis using assms sint_small [of "ucast w"] by simp
qed

lemma unat_geometry:
  assumes "0 < unat (x :: 32 word) * unat (y :: 32 word)" "unat x * unat y < 2 ^ 32"
  shows "unat (ucast (x * y - 1) :: 64 word) = unat x * unat y - 1"
proof -
  have "unat x * unat y < 2 ^ LENGTH(32)" using assms(2) by simp
  then have m: "unat (x * y) = unat x * unat y" by (rule unat_mult_lem [THEN iffD1])
  then have "x * y \<noteq> 0" using assms(1) by (metis unat_gt_0)
  then have "unat (x * y - 1) = unat (x * y) - 1" by (rule unat_minus_one)
  then show ?thesis using m by (simp add: unat_ucast_32_64)
qed

text \<open>
  Claim C5. A get-output-space request with its buffer in place, on a slot whose
  fragment size is not zero: the reply carries the slot's fragment size and fragment
  count as they are configured; its byte count \<open>B\<close> is
  \<open>fragsize * frags - 1\<close> while the slot is unbound and the write-availability the
  transport reports for the slot's stream once it is bound; and its fragment count is
  \<open>B\<close> divided by the fragment size. The reply's fields are \<^verbatim>\<open>int\<close>s, so \<open>B\<close>
  is below \<open>2^31\<close>, and an unbound slot has a layout of at least one byte.
\<close>

theorem getospace_reply:
  assumes slot: "fh info < length (stream_info g)"
    and out: "out_bufsize a = 16"
    and fs: "fragsize (the_slot g info) \<noteq> 0"
    and geo: "stream (the_slot g info) = LIBMARU_STREAM_MASTER lm \<longrightarrow>
                0 < unat (fragsize (the_slot g info)) * unat (frags (the_slot g info))"
    and B: "B = (if stream (the_slot g info) = LIBMARU_STREAM_MASTER lm
                 then unat (fragsize (the_slot g info)) * unat (frags (the_slot g info)) - 1
                 else unat (maru_stream_write_avail lm (stream (the_slot g info))))"
    and range: "B < 2 ^ 31"
  shows "\<exists>b. maru_ioctl lm g info SNDCTL_DSP_GETOSPACE a = (g, [], Reply_ioctl (Out_buf_info b))
           \<and> sint (abi_bytes b) = int B
           \<and> sint (abi_fragments b) = int (B div unat (fragsize (the_slot g info)))
           \<and> abi_fragsize b = fragsize (the_slot g info)
           \<and> abi_fragstotal b = frags (the_slot g info)"
proof -
  let ?s = "the_slot g info"
  define wa :: "64 word" where
    "wa = (if stream ?s \<noteq> LIBMARU_STREAM_MASTER lm
           then maru_stream_write_avail lm (stream ?s)
           else ucast (fragsize ?s * frags ?s - 1))"
  have fit: "unat (fragsize ?s) * unat (frags ?s) < 2 ^ 32"
    if "stream ?s = LIBMARU_STREAM_MASTER lm"
    using that geo B range by simp
  have wa: "unat wa = B"
    using geo B fit by (auto simp: wa_def unat_geometry)
  have bytes: "sint (ucast wa :: 32 word) = int B"
    using range wa sint_ucast_small [of wa] by simp
  have "unat (wa div ucast (fragsize ?s)) = B div unat (fragsize ?s)"
    by (simp add: unat_div wa unat_ucast_32_64)
  moreover have "B div unat (fragsize ?s) < 2 ^ 31"
    using range by (rule le_less_trans [OF div_le_dividend])
  ultimately have frag: "sint (ucast (wa div ucast (fragsize ?s)) :: 32 word)
      = int (B div unat (fragsize ?s))"
    using sint_ucast_small [of "wa div ucast (fragsize ?s)"] by simp
  have "maru_ioctl lm g info SNDCTL_DSP_GETOSPACE a =
      (g, [], Reply_ioctl (Out_buf_info
                  \<lparr> abi_fragments = ucast (wa div ucast (fragsize ?s)),
                    abi_fragstotal = frags ?s,
                    abi_fragsize = fragsize ?s,
                    abi_bytes = ucast wa \<rparr>))"
    using out fs by (simp add: prep_defs sizeof_audio_buf_info_def Let_def wa_def)
  then show ?thesis using bytes frag by simp
qed

lemma getospace_run:
  "maru_ioctl demo_transport demo_state demo_info SNDCTL_DSP_GETOSPACE
     \<lparr> in_buf = 0, in_bufsize = 0, out_bufsize = 16 \<rparr>
   = (demo_state, [], Reply_ioctl (Out_buf_info
        \<lparr> abi_fragments = 7, abi_fragstotal = 8, abi_fragsize = 2048, abi_bytes = 16383 \<rparr>))"
  by (simp add: prep_defs sizeof_audio_buf_info_def Let_def demo_defs)

theorem getospace_reply_witness:
  "stream (the_slot demo_state demo_info) = LIBMARU_STREAM_MASTER demo_transport
   \<and> fragsize (the_slot demo_state demo_info) = 2048
   \<and> frags (the_slot demo_state demo_info) = 8
   \<and> maru_ioctl demo_transport demo_state demo_info SNDCTL_DSP_GETOSPACE
        \<lparr> in_buf = 0, in_bufsize = 0, out_bufsize = 16 \<rparr>
      = (demo_state, [], Reply_ioctl (Out_buf_info
          \<lparr> abi_fragments = 7, abi_fragstotal = 8, abi_fragsize = 2048, abi_bytes = 16383 \<rparr>))
   \<and> (\<exists>b. Out_buf_info \<lparr> abi_fragments = 7, abi_fragstotal = 8, abi_fragsize = 2048,
                          abi_bytes = 16383 \<rparr> = Out_buf_info b
          \<and> sint (abi_bytes b) = 16383 \<and> sint (abi_fragments b) = 7)"
proof -
  let ?a = "\<lparr> in_buf = 0, in_bufsize = 0, out_bufsize = 16 \<rparr> :: ioctl_args"
  have h1: "fh demo_info < length (stream_info demo_state)" by (simp add: demo_defs)
  have h2: "out_bufsize ?a = 16" by simp
  have h3: "fragsize (the_slot demo_state demo_info) \<noteq> 0" by (simp add: demo_defs)
  have u: "stream (the_slot demo_state demo_info) = LIBMARU_STREAM_MASTER demo_transport"
    and f1: "fragsize (the_slot demo_state demo_info) = 2048"
    and f2: "frags (the_slot demo_state demo_info) = 8"
    by (simp_all add: demo_defs)
  have h4: "stream (the_slot demo_state demo_info) = LIBMARU_STREAM_MASTER demo_transport \<longrightarrow>
      0 < unat (fragsize (the_slot demo_state demo_info)) * unat (frags (the_slot demo_state demo_info))"
    by (simp add: f1 f2)
  have h5: "(16383 :: nat) =
      (if stream (the_slot demo_state demo_info) = LIBMARU_STREAM_MASTER demo_transport
       then unat (fragsize (the_slot demo_state demo_info))
              * unat (frags (the_slot demo_state demo_info)) - 1
       else unat (maru_stream_write_avail demo_transport (stream (the_slot demo_state demo_info))))"
    by (simp add: u f1 f2)
  have h6: "(16383 :: nat) < 2 ^ 31" by simp
  from getospace_reply [OF h1 h2 h3 h4 h5 h6]
  obtain b where b: "maru_ioctl demo_transport demo_state demo_info SNDCTL_DSP_GETOSPACE ?a
        = (demo_state, [], Reply_ioctl (Out_buf_info b))"
      "sint (abi_bytes b) = int 16383"
      "sint (abi_fragments b) = int (16383 div unat (fragsize (the_slot demo_state demo_info)))"
    by blast
  have e: "Out_buf_info \<lparr> abi_fragments = 7, abi_fragstotal = 8, abi_fragsize = 2048,
                          abi_bytes = 16383 \<rparr> = Out_buf_info b"
    using b(1) unfolding getospace_run by simp
  have "sint (abi_bytes b) = 16383" using b(2) by simp
  moreover have "sint (abi_fragments b) = 7" using b(3) unfolding f1 by simp
  ultimately have x: "\<exists>b. Out_buf_info \<lparr> abi_fragments = 7, abi_fragstotal = 8, abi_fragsize = 2048,
                          abi_bytes = 16383 \<rparr> = Out_buf_info b
          \<and> sint (abi_bytes b) = 16383 \<and> sint (abi_fragments b) = 7"
    using e by blast
  show ?thesis by (rule conjI u f1 f2 getospace_run x)+
qed

section \<open>Play volume\<close>

subsection \<open>Signed arithmetic without overflow\<close>

lemma and_ff: "(w :: 32 word) AND 0xff = take_bit 8 w"
proof -
  have "(0xff :: 32 word) = mask 8" by (simp add: mask_eq_exp_minus_1)
  then show ?thesis by (simp add: take_bit_eq_mask)
qed

lemma unat_low8: "unat ((w :: 32 word) AND 0xff) = unat w mod 256"
proof -
  have "unat (take_bit 8 w) = take_bit 8 (unat w)" by (rule unsigned_take_bit_eq)
  also have "\<dots> = unat w mod 2 ^ 8" by (rule take_bit_eq_mod)
  finally show ?thesis unfolding and_ff by simp
qed

lemma sint_in_range:
  assumes "- (2 ^ 31) \<le> k" "k < 2 ^ 31"
  shows "signed_take_bit 31 (k :: int) = k"
  using assms by (rule signed_take_bit_int_eq_self)

lemma sint_mult_32:
  assumes "\<bar>sint (x :: 32 word) * sint (y :: 32 word)\<bar> < 2147483648"
  shows "sint (x * y) = sint x * sint y"
proof -
  have "sint (x * y) = signed_take_bit 31 (sint x * sint y)"
    using sint_word_ariths(3) [of x y] by simp
  also have "\<dots> = sint x * sint y" using assms by (intro sint_in_range) simp_all
  finally show ?thesis .
qed

lemma sint_add_32:
  assumes "\<bar>sint (x :: 32 word) + sint (y :: 32 word)\<bar> < 2147483648"
  shows "sint (x + y) = sint x + sint y"
proof -
  have "sint (x + y) = signed_take_bit 31 (sint x + sint y)"
    using sint_word_ariths(1) [of x y] by simp
  also have "\<dots> = sint x + sint y" using assms by (intro sint_in_range) simp_all
  finally show ?thesis .
qed

lemma sint_sub_32:
  assumes "\<bar>sint (x :: 32 word) - sint (y :: 32 word)\<bar> < 2147483648"
  shows "sint (x - y) = sint x - sint y"
proof -
  have "sint (x - y) = signed_take_bit 31 (sint x - sint y)"
    using sint_word_ariths(2) [of x y] by simp
  also have "\<dots> = sint x - sint y" using assms by (intro sint_in_range) simp_all
  finally show ?thesis .
qed

lemma sint_of_int_32:
  assumes "\<bar>k\<bar> < 2147483648"
  shows "sint (word_of_int k :: 32 word) = k"
proof -
  have "sint (word_of_int k :: 32 word) = signed_take_bit 31 k"
    using signed_of_int [of k, where ?'a = int and ?'b = 32] by simp
  also have "\<dots> = k" using assms by (intro sint_in_range) simp_all
  finally show ?thesis .
qed

lemma abs_sdiv_le: "\<bar>(k :: int) sdiv l\<bar> \<le> \<bar>k\<bar>"
proof -
  have nn: "0 \<le> \<bar>k\<bar> div \<bar>l\<bar>" by (simp add: div_int_pos_iff)
  have "\<bar>k sdiv l\<bar> = \<bar>sgn k\<bar> * \<bar>sgn l\<bar> * \<bar>\<bar>k\<bar> div \<bar>l\<bar>\<bar>"
    by (simp only: signed_divide_int_def abs_mult)
  also have "\<dots> = \<bar>sgn k\<bar> * \<bar>sgn l\<bar> * (\<bar>k\<bar> div \<bar>l\<bar>)"
    using nn by (simp only: abs_of_nonneg)
  also have "\<dots> \<le> \<bar>k\<bar> div \<bar>l\<bar>"
    by (cases "k = 0"; cases "l = 0") (simp_all add: abs_sgn_eq)
  also have "\<dots> \<le> \<bar>k\<bar>"
    by (metis abs_0 abs_ge_zero div_by_0 div_by_1 linorder_not_less
        zabs_less_one_iff zdiv_mono2)
  finally show ?thesis .
qed

lemma abs_mult_bound:
  fixes x y :: int
  assumes "\<bar>x\<bar> \<le> X" "\<bar>y\<bar> \<le> Y"
  shows "\<bar>x * y\<bar> \<le> X * Y"
proof -
  have "\<bar>x\<bar> * \<bar>y\<bar> \<le> X * Y" using assms by (intro mult_mono) auto
  then show ?thesis by (simp add: abs_mult)
qed

subsection \<open>The linear map of the volume mapper\<close>

lemma volume_map:
  fixes mx mn i :: "32 word"
  assumes mx: "\<bar>sint mx\<bar> \<le> 2 ^ 22" and mn: "\<bar>sint mn\<bar> \<le> 2 ^ 22"
    and i: "unat i < 256"
  shows "sint (word_of_int (sint (mx * i + mn * (100 - i)) sdiv 100) :: 32 word)
         = (sint mx * int (unat i) + sint mn * (100 - int (unat i))) sdiv 100"
proof -
  let ?P = "int (unat i)"
  have si: "sint i = ?P" using i by (intro sint_small) simp
  have P: "0 \<le> ?P" "?P \<le> 255" using i by linarith+
  have s100: "sint (100 :: 32 word) = 100" by simp
  have "\<bar>sint (100 :: 32 word) - sint i\<bar> < 2147483648"
    unfolding si s100 using P by linarith
  then have "sint (100 - i) = sint (100 :: 32 word) - sint i" by (rule sint_sub_32)
  then have d: "sint (100 - i) = 100 - ?P" unfolding si s100 .
  have "\<bar>?P\<bar> \<le> 255" using P by linarith
  with mx have "\<bar>sint mx * ?P\<bar> \<le> 2 ^ 22 * 255" by (rule abs_mult_bound)
  then have b1: "\<bar>sint mx * ?P\<bar> \<le> 1069547520" by simp
  have "\<bar>100 - ?P\<bar> \<le> 155" using P by linarith
  with mn have "\<bar>sint mn * (100 - ?P)\<bar> \<le> 2 ^ 22 * 155" by (rule abs_mult_bound)
  then have b2: "\<bar>sint mn * (100 - ?P)\<bar> \<le> 650117120" by simp
  have "\<bar>sint mx * sint i\<bar> < 2147483648" unfolding si using b1 by linarith
  then have "sint (mx * i) = sint mx * sint i" by (rule sint_mult_32)
  then have m1: "sint (mx * i) = sint mx * ?P" unfolding si .
  have "\<bar>sint mn * sint (100 - i)\<bar> < 2147483648" unfolding d using b2 by linarith
  then have "sint (mn * (100 - i)) = sint mn * sint (100 - i)" by (rule sint_mult_32)
  then have m2: "sint (mn * (100 - i)) = sint mn * (100 - ?P)" unfolding d .
  have "\<bar>sint (mx * i) + sint (mn * (100 - i))\<bar> < 2147483648"
    unfolding m1 m2 using b1 b2 by linarith
  then have "sint (mx * i + mn * (100 - i)) = sint (mx * i) + sint (mn * (100 - i))"
    by (rule sint_add_32)
  then have sum: "sint (mx * i + mn * (100 - i)) = sint mx * ?P + sint mn * (100 - ?P)"
    unfolding m1 m2 .
  have "\<bar>(sint mx * ?P + sint mn * (100 - ?P)) sdiv 100\<bar> \<le> \<bar>sint mx * ?P + sint mn * (100 - ?P)\<bar>"
    by (rule abs_sdiv_le)
  then have "\<bar>(sint mx * ?P + sint mn * (100 - ?P)) sdiv 100\<bar> < 2147483648"
    using b1 b2 by linarith
  then show ?thesis unfolding sum by (rule sint_of_int_32)
qed


text \<open>
  Claim C6. A set-play-volume request with its buffers in place, issued while the global
  mutex is free, takes the low byte \<open>P\<close> of its word as the level and hands exactly one
  volume to the transport, for the slot's stream. For \<open>P > 0\<close> that volume is
  \<open>V = (max * P + min * (100 - P)) / 100\<close>, with C's division, replaced by \<open>min\<close> when
  it is below \<open>min\<close> and otherwise by \<open>max\<close> when it is above \<open>max\<close>, so that it lies in
  \<open>[min, max]\<close>; for \<open>P = 0\<close> it is the mute value (which does not exceed \<open>max\<close>). When
  the transport refuses, the reply is \<^verbatim>\<open>EIO\<close> and the slot is as it was; when it
  accepts, the slot stores that volume and the reply is the word \<open>(P << 8) | P\<close>. The
  volume range is small enough for the \<^verbatim>\<open>int\<close> arithmetic not to overflow.
\<close>

theorem setplayvol_contract:
  assumes slot: "fh info < length (stream_info g)"
    and bufs: "in_bufsize a = 4" "out_bufsize a = 4"
    and free: "\<not> lock g"
    and range: "\<bar>sint (min_volume g)\<bar> \<le> 2 ^ 22" "\<bar>sint (max_volume g)\<bar> \<le> 2 ^ 22"
    and P: "P = int (unat (in_buf a) mod 256)"
    and V: "V = (sint (max_volume g) * P + sint (min_volume g) * (100 - P)) sdiv 100"
    and run: "maru_ioctl lm g info SNDCTL_DSP_SETPLAYVOL a = (g', ev, r)"
  shows "\<exists>w. ev = [Stream_set_volume (stream (the_slot g info)) w]
           \<and> (0 < P \<longrightarrow> sint w = (if V < sint (min_volume g) then sint (min_volume g)
                                     else if sint (max_volume g) < V then sint (max_volume g)
                                     else V))
           \<and> (0 < P \<and> sint (min_volume g) \<le> sint (max_volume g) \<longrightarrow>
                 sint (min_volume g) \<le> sint w \<and> sint w \<le> sint (max_volume g))
           \<and> (P = 0 \<and> sint (LIBMARU_VOLUME_MUTE lm) \<le> sint (max_volume g) \<longrightarrow>
                 w = LIBMARU_VOLUME_MUTE lm)
           \<and> (\<not> maru_stream_set_volume lm (stream (the_slot g info)) w \<longrightarrow>
                 r = Reply_err EIO \<and> the_slot g' info = the_slot g info)
           \<and> (maru_stream_set_volume lm (stream (the_slot g info)) w \<longrightarrow>
                 r = Reply_ioctl (Out_int (push_bit 8 (in_buf a AND 0xff) OR (in_buf a AND 0xff)))
                 \<and> vol (the_slot g' info) = w)"
proof -
  let ?s = "the_slot g info"
  let ?p = "in_buf a AND 0xff"
  let ?mn = "min_volume g"
  let ?mx = "max_volume g"
  have up: "unat ?p = unat (in_buf a) mod 256" by (rule unat_low8)
  then have p256: "unat ?p < 256" by simp
  then have sp: "sint ?p = P" unfolding P using up sint_small [of ?p] by simp
  define v0 :: "32 word" where
    "v0 = (if 0 < sint ?p then word_of_int (sint (?mx * ?p + ?mn * (100 - ?p)) sdiv 100)
           else LIBMARU_VOLUME_MUTE lm)"
  define w :: "32 word" where
    "w = (if sint v0 < sint ?mn \<and> 0 < sint ?p then ?mn
          else if sint ?mx < sint v0 then ?mx else v0)"
  have v0: "sint v0 = V" if "0 < P"
    using that volume_map [OF range(2) range(1) p256] sp
    unfolding v0_def V P up by simp
  have sv: "set_volume lm (g\<lparr>lock := True\<rparr>) ?s ?p =
      (if \<not> maru_stream_set_volume lm (stream ?s) w
       then (False, [Stream_set_volume (stream ?s) w], ?s)
       else (True, [Stream_set_volume (stream ?s) w], ?s\<lparr>vol := w\<rparr>))"
    by (simp add: set_volume_def Let_def w_def v0_def)
  have res: "(g', ev, r) =
      (if \<not> maru_stream_set_volume lm (stream ?s) w
       then (g\<lparr>lock := True\<rparr>, [Stream_set_volume (stream ?s) w], Reply_err EIO)
       else (set_slot (g\<lparr>lock := True, lock := False\<rparr>) (fh info) (?s\<lparr>vol := w\<rparr>),
             [Stream_set_volume (stream ?s) w],
             Reply_ioctl (Out_int (push_bit 8 ?p OR ?p))))"
    using run [symmetric] bufs free by (simp add: prep_defs Let_def sv)
  have 1: "ev = [Stream_set_volume (stream ?s) w]" using res by (simp split: if_splits)
  have 2: "sint w = (if V < sint ?mn then sint ?mn else if sint ?mx < V then sint ?mx else V)"
    if "0 < P" using that v0 [OF that] sp by (simp add: w_def)
  have 3: "sint ?mn \<le> sint w \<and> sint w \<le> sint ?mx" if "0 < P" "sint ?mn \<le> sint ?mx"
    using 2 [OF that(1)] that(2) by (simp split: if_splits)
  have 4: "w = LIBMARU_VOLUME_MUTE lm" if "P = 0" "sint (LIBMARU_VOLUME_MUTE lm) \<le> sint ?mx"
    using that sp by (simp add: w_def v0_def)
  have 5: "r = Reply_err EIO \<and> the_slot g' info = ?s"
    if "\<not> maru_stream_set_volume lm (stream ?s) w"
    using res that by simp
  have 6: "r = Reply_ioctl (Out_int (push_bit 8 ?p OR ?p)) \<and> vol (the_slot g' info) = w"
    if "maru_stream_set_volume lm (stream ?s) w"
    using res that slot by simp
  from 1 2 3 4 5 6 show ?thesis by blast
qed

lemma setplayvol_run:
  "maru_ioctl demo_transport bound_state demo_info SNDCTL_DSP_SETPLAYVOL (demo_args 50)
     = (set_slot bound_state 0 (the_slot bound_state demo_info\<lparr>vol := 500\<rparr>),
        [Stream_set_volume 0 500], Reply_ioctl (Out_int 12850))"
proof -
  have "(50 :: 32 word) AND 0xff = 50" by simp
  moreover have "sint (50 :: 32 word) = 50" by simp
  moreover have "sint (word_of_int 500 :: 32 word) = 500" by simp
  moreover have "sint (50000 :: 32 word) = 50000" by simp
  moreover have "(50000 :: int) sdiv 100 = 500" by (simp add: signed_divide_int_def)
  moreover have "sint (1000 :: 32 word) = 1000" by simp
  ultimately show ?thesis
    by (simp add: prep_defs Let_def set_volume_def demo_defs bound_state_def demo_args_def)
qed

theorem setplayvol_contract_witness:
  "\<not> lock bound_state
   \<and> (50 :: int) = int (unat (in_buf (demo_args 50)) mod 256)
   \<and> (500 :: int) = (sint (max_volume bound_state) * 50
                      + sint (min_volume bound_state) * (100 - 50)) sdiv 100
   \<and> maru_ioctl demo_transport bound_state demo_info SNDCTL_DSP_SETPLAYVOL (demo_args 50)
       = (set_slot bound_state 0 (the_slot bound_state demo_info\<lparr>vol := 500\<rparr>),
          [Stream_set_volume 0 500], Reply_ioctl (Out_int 12850))
   \<and> (\<exists>w. [Stream_set_volume 0 500]
             = [Stream_set_volume (stream (the_slot bound_state demo_info)) w]
          \<and> sint w = 500)
   \<and> (12850 :: 32 word) = push_bit 8 50 OR 50"
proof -
  have h1: "fh demo_info < length (stream_info bound_state)" by (simp add: demo_defs bound_state_def demo_args_def)
  have h2: "in_bufsize (demo_args 50) = 4" "out_bufsize (demo_args 50) = 4"
    by (simp_all add: demo_defs bound_state_def demo_args_def)
  have h3: "\<not> lock bound_state" by (simp add: demo_defs bound_state_def demo_args_def)
  have mn: "sint (min_volume bound_state) = 0" and mx: "sint (max_volume bound_state) = 1000"
    by (simp_all add: demo_defs bound_state_def demo_args_def)
  have h4: "\<bar>sint (min_volume bound_state)\<bar> \<le> 2 ^ 22" "\<bar>sint (max_volume bound_state)\<bar> \<le> 2 ^ 22"
    unfolding mn mx by simp_all
  have h5: "(50 :: int) = int (unat (in_buf (demo_args 50)) mod 256)" by (simp add: demo_defs bound_state_def demo_args_def)
  have h6: "(500 :: int) = (sint (max_volume bound_state) * 50
                      + sint (min_volume bound_state) * (100 - 50)) sdiv 100"
    unfolding mn mx by (simp add: signed_divide_int_def)
  from setplayvol_contract [OF h1 h2 h3 h4 h5 h6 setplayvol_run]
  obtain w where w: "[Stream_set_volume 0 500]
             = [Stream_set_volume (stream (the_slot bound_state demo_info)) w]"
      "(0 :: int) < 50 \<longrightarrow> sint w = (if 500 < sint (min_volume bound_state)
                                      then sint (min_volume bound_state)
                                      else if sint (max_volume bound_state) < 500
                                      then sint (max_volume bound_state) else 500)"
    by blast
  have "sint w = 500" using w(2) unfolding mn mx by simp
  then have x: "\<exists>w. [Stream_set_volume 0 500]
             = [Stream_set_volume (stream (the_slot bound_state demo_info)) w]
          \<and> sint w = 500"
    using w(1) by blast
  have y: "(12850 :: 32 word) = push_bit 8 50 OR 50" by simp
  show ?thesis by (rule conjI h3 h5 h6 setplayvol_run x y)+
qed

section \<open>Poll\<close>

text \<open>
  Claim C7. A poll call stores the new handle in the slot, whatever was stored before,
  and destroys the handle that was stored before, if there was one; nothing else in the
  device changes. It then answers at once: hang-up when the slot's error flag is set;
  otherwise writable when the slot is unbound; otherwise writable when the
  write-availability the transport reports is at least one fragment size, and not ready
  when it is less, with the new handle left in the slot for the notifier.
\<close>

theorem maru_poll_contract:
  assumes slot: "fh info < length (stream_info g)"
    and run: "maru_poll lm g info new_ph = (g', ev, r)"
  shows "g' = set_slot g (fh info) ((the_slot g info)\<lparr>ph := new_ph\<rparr>)
       \<and> ph (the_slot g' info) = new_ph
       \<and> ev = (case ph (the_slot g info) of None \<Rightarrow> [] | Some old \<Rightarrow> [Pollhandle_destroy old])
       \<and> (error (the_slot g info) \<longrightarrow> r = Reply_poll POLLHUP)
       \<and> (\<not> error (the_slot g info) \<and> stream (the_slot g info) = LIBMARU_STREAM_MASTER lm
            \<longrightarrow> r = Reply_poll POLLOUT)
       \<and> (\<not> error (the_slot g info) \<and> stream (the_slot g info) \<noteq> LIBMARU_STREAM_MASTER lm
            \<longrightarrow> r = Reply_poll
                  (if unat (fragsize (the_slot g info))
                        \<le> unat (maru_stream_write_avail lm (stream (the_slot g info)))
                   then POLLOUT else POLLNONE))"
  using slot run
  by (auto simp: maru_poll_def maru_update_pollhandle_def Let_def ucast_le_64
           split: if_splits)

lemma poll_unbound_run:
  "maru_poll demo_transport demo_state demo_info (Some 3)
     = (set_slot demo_state 0 (demo_slot\<lparr>ph := Some 3\<rparr>), [], Reply_poll POLLOUT)"
  by (simp add: maru_poll_def maru_update_pollhandle_def Let_def demo_defs full_transport_def bound_state_def)

lemma poll_full_run:
  "maru_poll full_transport bound_state demo_info (Some 3)
     = (set_slot bound_state 0 (demo_slot\<lparr>stream := 0, ph := Some 3\<rparr>),
        [Pollhandle_destroy 7], Reply_poll POLLNONE)"
  by (simp add: maru_poll_def maru_update_pollhandle_def Let_def demo_defs full_transport_def bound_state_def)

theorem maru_poll_contract_witness:
  "stream (the_slot demo_state demo_info) = LIBMARU_STREAM_MASTER demo_transport
   \<and> maru_poll demo_transport demo_state demo_info (Some 3)
       = (set_slot demo_state 0 (demo_slot\<lparr>ph := Some 3\<rparr>), [], Reply_poll POLLOUT)
   \<and> ph (the_slot (set_slot demo_state 0 (demo_slot\<lparr>ph := Some 3\<rparr>)) demo_info) = Some 3
   \<and> stream (the_slot bound_state demo_info) \<noteq> LIBMARU_STREAM_MASTER full_transport
   \<and> maru_poll full_transport bound_state demo_info (Some 3)
       = (set_slot bound_state 0 (demo_slot\<lparr>stream := 0, ph := Some 3\<rparr>),
          [Pollhandle_destroy 7], Reply_poll POLLNONE)
   \<and> ph (the_slot (set_slot bound_state 0 (demo_slot\<lparr>stream := 0, ph := Some 3\<rparr>)) demo_info)
       = Some 3"
proof -
  have h1: "fh demo_info < length (stream_info demo_state)"
    and h2: "fh demo_info < length (stream_info bound_state)"
    by (simp_all add: demo_defs full_transport_def bound_state_def)
  have u: "stream (the_slot demo_state demo_info) = LIBMARU_STREAM_MASTER demo_transport"
    and b: "stream (the_slot bound_state demo_info) \<noteq> LIBMARU_STREAM_MASTER full_transport"
    by (simp_all add: demo_defs full_transport_def bound_state_def)
  note t1 = maru_poll_contract [OF h1 poll_unbound_run]
  note t2 = maru_poll_contract [OF h2 poll_full_run]
  note c1 = t1 [THEN conjunct2, THEN conjunct1]
  note c2 = t2 [THEN conjunct2, THEN conjunct1]
  show ?thesis by (rule conjI u b poll_unbound_run poll_full_run c1 c2)+
qed

section \<open>Release\<close>

lemma stream_closes_destroy [simp]:
  "stream_closes (case p of None \<Rightarrow> [] | Some q \<Rightarrow> [Pollhandle_destroy q]) = []"
  by (cases p) auto

text \<open>
  Claim C8, on the code. Release of a slot that is still unbound asks the transport to
  close a stream all the same: the call is made with the sentinel handle. The slot is
  then the zero record and the reply is success. (The reset handler asks for a close
  only when the slot is bound.)
\<close>

theorem maru_release_closes_unbound:
  assumes slot: "fh info < length (stream_info g)"
    and unbound: "stream (the_slot g info) = LIBMARU_STREAM_MASTER lm"
  shows "stream_closes (fst (snd (maru_release g info))) = [LIBMARU_STREAM_MASTER lm]
       \<and> the_slot (fst (maru_release g info)) info = zero_slot
       \<and> snd (snd (maru_release g info)) = Reply_ok"
  using slot unbound by (simp add: maru_release_def Let_def)

theorem maru_release_closes_unbound_witness:
  "stream (the_slot demo_state demo_info) = LIBMARU_STREAM_MASTER demo_transport
   \<and> stream_closes (fst (snd (maru_release demo_state demo_info)))
       = [LIBMARU_STREAM_MASTER demo_transport]
   \<and> LIBMARU_STREAM_MASTER demo_transport = 0xFFFFFFFF
   \<and> fst (snd (maru_ioctl demo_transport demo_state demo_info SNDCTL_DSP_RESET (demo_args 0)))
       = []"
proof -
  have h: "fh demo_info < length (stream_info demo_state)" by (simp add: demo_defs demo_args_def)
  have u: "stream (the_slot demo_state demo_info) = LIBMARU_STREAM_MASTER demo_transport"
    by (simp add: demo_defs demo_args_def)
  have m: "LIBMARU_STREAM_MASTER demo_transport = 0xFFFFFFFF" by (simp add: demo_defs demo_args_def)
  have r: "fst (snd (maru_ioctl demo_transport demo_state demo_info SNDCTL_DSP_RESET
                       (demo_args 0))) = []"
    using u by (simp add: Let_def)
  note c = maru_release_closes_unbound [OF h u, THEN conjunct1]
  show ?thesis by (rule conjI u c m r)+
qed

section \<open>The write count\<close>

lemma maru_write_cnt:
  assumes slot: "fh info < length (stream_info g)"
    and run: "maru_write lm g info sz = (g1, ev, r)"
  shows "write_cnt (the_slot g1 info)
           = write_cnt (the_slot g info) + (case r of Reply_write k \<Rightarrow> k | _ \<Rightarrow> 0)"
    and "length (stream_info g1) = length (stream_info g)"
    and "\<And>k. r = Reply_write k \<Longrightarrow> sz \<noteq> 0 \<Longrightarrow> k \<noteq> 0"
proof -
  obtain ok ev0 s1 where b: "bind_slot lm (the_slot g info) = (ok, ev0, s1)"
    by (cases "bind_slot lm (the_slot g info)") auto
  note bs = bind_slot_cases [OF b]
  show "write_cnt (the_slot g1 info)
           = write_cnt (the_slot g info) + (case r of Reply_write k \<Rightarrow> k | _ \<Rightarrow> 0)"
    using slot run b bs by (auto simp: maru_write_def Let_def split: if_splits)
  show "length (stream_info g1) = length (stream_info g)"
    using slot run b bs by (auto simp: maru_write_def Let_def split: if_splits)
  show "\<And>k. r = Reply_write k \<Longrightarrow> sz \<noteq> 0 \<Longrightarrow> k \<noteq> 0"
    using slot run b bs by (auto simp: maru_write_def Let_def split: if_splits)
qed

lemma accepted_step:
  "accepted (r # rs) = unat (case r of Reply_write k \<Rightarrow> k | _ \<Rightarrow> (0 :: 64 word)) + accepted rs"
  by (cases r) auto

lemma maru_writes_cnt:
  assumes "fh info < length (stream_info g)"
    and "unat (write_cnt (the_slot g info)) + accepted (snd (maru_writes g info ws)) < 2 ^ 64"
  shows "unat (write_cnt (the_slot (fst (maru_writes g info ws)) info))
           = unat (write_cnt (the_slot g info)) + accepted (snd (maru_writes g info ws))"
  using assms
proof (induction ws arbitrary: g)
  case Nil
  then show ?case by simp
next
  case (Cons w ws)
  obtain lm sz where w: "w = (lm, sz)" by (cases w)
  obtain g1 ev r where run: "maru_write lm g info sz = (g1, ev, r)"
    by (cases "maru_write lm g info sz") auto
  obtain g2 rs where rest: "maru_writes g1 info ws = (g2, rs)"
    by (cases "maru_writes g1 info ws") auto
  note step = maru_write_cnt [OF Cons.prems(1) run]
  define k :: "64 word" where "k = (case r of Reply_write k \<Rightarrow> k | _ \<Rightarrow> 0)"
  have len: "fh info < length (stream_info g1)" using step(2) Cons.prems(1) by simp
  show ?case
  proof (cases "r = Abort")
    case True
    then show ?thesis using w run step(1) by simp
  next
    case False
    have tot: "unat (write_cnt (the_slot g info)) + (unat k + accepted rs) < 2 ^ 64"
      using Cons.prems(2) w run rest False by (simp add: accepted_step k_def)
    then have "unat (write_cnt (the_slot g info)) + unat k < 2 ^ LENGTH(64)" by simp
    then have "unat (write_cnt (the_slot g info) + k) = unat (write_cnt (the_slot g info)) + unat k"
      by (rule unat_add_lem [THEN iffD1])
    then have one: "unat (write_cnt (the_slot g1 info)) = unat (write_cnt (the_slot g info)) + unat k"
      using step(1) by (simp add: k_def)
    have "unat (write_cnt (the_slot g1 info)) + accepted (snd (maru_writes g1 info ws)) < 2 ^ 64"
      using tot one rest by simp
    from Cons.IH [OF len this] have "unat (write_cnt (the_slot g2 info))
        = unat (write_cnt (the_slot g1 info)) + accepted rs"
      using rest by simp
    then show ?thesis using w run rest False one by (simp add: accepted_step k_def)
  qed
qed

lemma maru_ioctl_write_cnt:
  assumes slot: "fh info < length (stream_info g)"
  shows "write_cnt (the_slot (fst (maru_ioctl lm g info cmd a)) info)
           = (if cmd = SNDCTL_DSP_RESET \<and> stream (the_slot g info) \<noteq> LIBMARU_STREAM_MASTER lm
              then 0 else write_cnt (the_slot g info))"
proof (cases cmd)
  case SNDCTL_DSP_SPEED
  then show ?thesis using slot
    by (auto simp: prep_defs Let_def split: option.splits list.splits)
next
  case SNDCTL_DSP_SETPLAYVOL
  then show ?thesis using slot
    by (auto simp: prep_defs Let_def set_volume_def split: option.splits)
next
  case SNDCTL_DSP_GETPLAYVOL
  then show ?thesis using slot
    by (auto simp: prep_defs Let_def read_volume_def split: option.splits)
qed (use slot in \<open>auto simp: prep_defs Let_def split: option.splits\<close>)

lemma find_inactive_bound:
  "find_inactive xs n = Some i \<Longrightarrow> n \<le> i \<and> i - n < length xs"
proof (induction xs arbitrary: n)
  case Nil
  then show ?case by simp
next
  case (Cons x xs)
  then show ?case by (fastforce split: if_splits)
qed

lemma map_write_cnt_update:
  "i < length xs \<Longrightarrow> write_cnt x = write_cnt (xs ! i) \<Longrightarrow>
   map write_cnt (xs[i := x]) = map write_cnt xs"
  by (simp add: map_update list_update_same_conv)

lemma maru_open_write_cnt:
  "map write_cnt (stream_info (fst (maru_open lm g fl pn))) = map write_cnt (stream_info g)"
proof (cases "find_inactive (stream_info g) 0")
  case None
  then show ?thesis by (simp add: maru_open_def)
next
  case (Some i)
  then have "i < length (stream_info g)" using find_inactive_bound [OF Some] by simp
  then show ?thesis using Some
    by (auto simp: maru_open_def Let_def set_slot_def map_write_cnt_update split: option.splits)
qed

text \<open>
  Claim C9. On every slot, across any sequence of writes, \<^verbatim>\<open>write_cnt\<close> grows by
  exactly the byte counts the writes report as accepted, and so never decreases, as long
  as the 64-bit counter does not run over. Each write of a non-empty buffer that
  succeeds reports a positive count and adds it. No other request changes the counter
  except the two that set it to 0: reset/halt, on a bound slot, and release;
  \<^verbatim>\<open>maru_open\<close> leaves the counter of every slot alone. Those two do set it to 0,
  whatever it was: reset/halt on a bound slot zeroes the counter and unbinds the slot (on
  an unbound slot it leaves the counter as it is), and release leaves the zero record in
  the slot.
\<close>

theorem write_cnt_monotone:
  assumes slot: "fh info < length (stream_info g)"
  shows "(unat (write_cnt (the_slot g info)) + accepted (snd (maru_writes g info ws)) < 2 ^ 64 \<longrightarrow>
            unat (write_cnt (the_slot (fst (maru_writes g info ws)) info))
              = unat (write_cnt (the_slot g info)) + accepted (snd (maru_writes g info ws))
            \<and> write_cnt (the_slot g info) \<le> write_cnt (the_slot (fst (maru_writes g info ws)) info))
       \<and> (\<forall>k. sz \<noteq> 0 \<and> snd (snd (maru_write lm g info sz)) = Reply_write k \<longrightarrow>
            k \<noteq> 0
            \<and> write_cnt (the_slot (fst (maru_write lm g info sz)) info)
                = write_cnt (the_slot g info) + k)
       \<and> (write_cnt (the_slot (fst (maru_op g info rq)) info) \<noteq> write_cnt (the_slot g info) \<longrightarrow>
            (\<exists>lm' sz'. rq = Write lm' sz')
            \<or> (\<exists>lm' a. rq = Ioctl lm' SNDCTL_DSP_RESET a
                  \<and> stream (the_slot g info) \<noteq> LIBMARU_STREAM_MASTER lm'
                  \<and> write_cnt (the_slot (fst (maru_op g info rq)) info) = 0)
            \<or> (rq = Release \<and> write_cnt (the_slot (fst (maru_op g info rq)) info) = 0))
       \<and> map write_cnt (stream_info (fst (maru_open lm g fl pn))) = map write_cnt (stream_info g)
       \<and> (stream (the_slot g info) \<noteq> LIBMARU_STREAM_MASTER lm \<longrightarrow>
            write_cnt (the_slot (fst (maru_op g info (Ioctl lm SNDCTL_DSP_RESET a))) info) = 0
            \<and> stream (the_slot (fst (maru_op g info (Ioctl lm SNDCTL_DSP_RESET a))) info)
                = LIBMARU_STREAM_MASTER lm)
       \<and> (stream (the_slot g info) = LIBMARU_STREAM_MASTER lm \<longrightarrow>
            fst (maru_op g info (Ioctl lm SNDCTL_DSP_RESET a)) = g)
       \<and> write_cnt (the_slot (fst (maru_op g info Release)) info) = 0
       \<and> the_slot (fst (maru_op g info Release)) info = zero_slot"
proof -
  have 5: "write_cnt (the_slot (fst (maru_op g info (Ioctl lm SNDCTL_DSP_RESET a))) info) = 0
            \<and> stream (the_slot (fst (maru_op g info (Ioctl lm SNDCTL_DSP_RESET a))) info)
                = LIBMARU_STREAM_MASTER lm"
    if "stream (the_slot g info) \<noteq> LIBMARU_STREAM_MASTER lm"
    using that slot by (simp add: Let_def)
  have 6: "fst (maru_op g info (Ioctl lm SNDCTL_DSP_RESET a)) = g"
    if "stream (the_slot g info) = LIBMARU_STREAM_MASTER lm"
    using that by (simp add: Let_def)
  have 7: "the_slot (fst (maru_op g info Release)) info = zero_slot"
    using slot by (simp add: maru_release_def Let_def)
  have 8: "write_cnt (the_slot (fst (maru_op g info Release)) info) = 0"
    unfolding 7 by (simp add: zero_slot_def)
  have 1: "unat (write_cnt (the_slot (fst (maru_writes g info ws)) info))
              = unat (write_cnt (the_slot g info)) + accepted (snd (maru_writes g info ws))
            \<and> write_cnt (the_slot g info) \<le> write_cnt (the_slot (fst (maru_writes g info ws)) info)"
    if "unat (write_cnt (the_slot g info)) + accepted (snd (maru_writes g info ws)) < 2 ^ 64"
    using maru_writes_cnt [OF slot that] by (simp add: word_le_nat_alt)
  have 2: "k \<noteq> 0 \<and> write_cnt (the_slot (fst (maru_write lm g info sz)) info)
                = write_cnt (the_slot g info) + k"
    if "sz \<noteq> 0" "snd (snd (maru_write lm g info sz)) = Reply_write k" for k
  proof -
    obtain g1 ev r where run: "maru_write lm g info sz = (g1, ev, r)"
      by (cases "maru_write lm g info sz") auto
    show ?thesis using maru_write_cnt [OF slot run] that run by simp
  qed
  have 3: "(\<exists>lm' sz'. rq = Write lm' sz')
            \<or> (\<exists>lm' a. rq = Ioctl lm' SNDCTL_DSP_RESET a
                  \<and> stream (the_slot g info) \<noteq> LIBMARU_STREAM_MASTER lm'
                  \<and> write_cnt (the_slot (fst (maru_op g info rq)) info) = 0)
            \<or> (rq = Release \<and> write_cnt (the_slot (fst (maru_op g info rq)) info) = 0)"
    if ch: "write_cnt (the_slot (fst (maru_op g info rq)) info) \<noteq> write_cnt (the_slot g info)"
  proof (cases rq)
    case (Write lm' sz')
    then show ?thesis by simp
  next
    case (Ioctl lm' cmd a)
    then show ?thesis using ch maru_ioctl_write_cnt [OF slot, of lm' cmd a]
      by (auto split: if_splits)
  next
    case (Poll lm' p)
    then show ?thesis using ch slot
      by (simp add: maru_poll_def maru_update_pollhandle_def Let_def split: if_splits)
  next
    case Release
    then show ?thesis using slot by (simp add: maru_release_def Let_def zero_slot_def)
  next
    case Notification
    then show ?thesis using ch slot
      by (auto simp: write_notification_cb_def Let_def the_slot_def set_slot_def
               split: option.splits)
  qed
  have 4: "map write_cnt (stream_info (fst (maru_open lm g fl pn)))
             = map write_cnt (stream_info g)"
    by (rule maru_open_write_cnt)
  from 1 2 3 have a: "(unat (write_cnt (the_slot g info))
              + accepted (snd (maru_writes g info ws)) < 2 ^ 64 \<longrightarrow>
            unat (write_cnt (the_slot (fst (maru_writes g info ws)) info))
              = unat (write_cnt (the_slot g info)) + accepted (snd (maru_writes g info ws))
            \<and> write_cnt (the_slot g info) \<le> write_cnt (the_slot (fst (maru_writes g info ws)) info))
       \<and> (\<forall>k. sz \<noteq> 0 \<and> snd (snd (maru_write lm g info sz)) = Reply_write k \<longrightarrow>
            k \<noteq> 0
            \<and> write_cnt (the_slot (fst (maru_write lm g info sz)) info)
                = write_cnt (the_slot g info) + k)
       \<and> (write_cnt (the_slot (fst (maru_op g info rq)) info) \<noteq> write_cnt (the_slot g info) \<longrightarrow>
            (\<exists>lm' sz'. rq = Write lm' sz')
            \<or> (\<exists>lm' a. rq = Ioctl lm' SNDCTL_DSP_RESET a
                  \<and> stream (the_slot g info) \<noteq> LIBMARU_STREAM_MASTER lm'
                  \<and> write_cnt (the_slot (fst (maru_op g info rq)) info) = 0)
            \<or> (rq = Release \<and> write_cnt (the_slot (fst (maru_op g info rq)) info) = 0))"
    by blast
  from 5 6 have b: "(stream (the_slot g info) \<noteq> LIBMARU_STREAM_MASTER lm \<longrightarrow>
            write_cnt (the_slot (fst (maru_op g info (Ioctl lm SNDCTL_DSP_RESET a))) info) = 0
            \<and> stream (the_slot (fst (maru_op g info (Ioctl lm SNDCTL_DSP_RESET a))) info)
                = LIBMARU_STREAM_MASTER lm)
       \<and> (stream (the_slot g info) = LIBMARU_STREAM_MASTER lm \<longrightarrow>
            fst (maru_op g info (Ioctl lm SNDCTL_DSP_RESET a)) = g)"
    by blast
  show ?thesis
    by (rule conjI a [THEN conjunct1] a [THEN conjunct2, THEN conjunct1]
          a [THEN conjunct2, THEN conjunct2] 4 b [THEN conjunct1] b [THEN conjunct2] 8 7)+
qed


lemma three_writes_run:
  "maru_writes bound_state demo_info three_writes
     = (set_slot bound_state 0 (the_slot bound_state demo_info\<lparr>write_cnt := 16\<rparr>),
        [Reply_write 10, Reply_err EIO, Reply_write 6])"
  by (simp add: three_writes_def maru_write_def bind_slot_def frame_size_def
        demo_defs stalled_transport_def bound_state_def demo_args_def Let_def)

theorem write_cnt_monotone_witness:
  "fh demo_info < length (stream_info bound_state)
   \<and> unat (write_cnt (the_slot bound_state demo_info))
        + accepted (snd (maru_writes bound_state demo_info three_writes)) < 2 ^ 64
   \<and> write_cnt (the_slot bound_state demo_info)
        \<le> write_cnt (the_slot (fst (maru_writes bound_state demo_info three_writes)) demo_info)
   \<and> accepted (snd (maru_writes bound_state demo_info three_writes)) = 16
   \<and> write_cnt (the_slot (fst (maru_writes bound_state demo_info three_writes)) demo_info) = 16
   \<and> stream (the_slot (fst (maru_writes bound_state demo_info three_writes)) demo_info)
        \<noteq> LIBMARU_STREAM_MASTER demo_transport
   \<and> write_cnt (the_slot (fst (maru_op (fst (maru_writes bound_state demo_info three_writes))
                                  demo_info (Ioctl demo_transport SNDCTL_DSP_RESET (demo_args 0))))
                  demo_info) = 0
   \<and> write_cnt (the_slot (fst (maru_op (fst (maru_writes bound_state demo_info three_writes))
                                  demo_info Release))
                  demo_info) = 0
   \<and> the_slot (fst (maru_op (fst (maru_writes bound_state demo_info three_writes))
                       demo_info Release))
        demo_info = zero_slot"
proof -
  have h: "fh demo_info < length (stream_info bound_state)"
    by (simp add: demo_defs bound_state_def)
  have a16: "accepted (snd (maru_writes bound_state demo_info three_writes)) = 16"
    by (simp add: three_writes_run)
  have w0: "write_cnt (the_slot bound_state demo_info) = 0"
    by (simp add: demo_defs bound_state_def)
  have hh: "unat (write_cnt (the_slot bound_state demo_info))
        + accepted (snd (maru_writes bound_state demo_info three_writes)) < 2 ^ 64"
    unfolding a16 w0 by simp
  note t = write_cnt_monotone [OF h, where ws = three_writes and sz = 10
      and lm = demo_transport and rq = Release and fl = O_WRONLY and pn = None
      and a = "demo_args 0"]
  note c = t [THEN conjunct1, THEN mp, OF hh, THEN conjunct2]
  have w16: "write_cnt (the_slot (fst (maru_writes bound_state demo_info three_writes))
                         demo_info) = 16"
    by (simp add: three_writes_run) (simp add: demo_defs bound_state_def)
  have h2: "fh demo_info
      < length (stream_info (fst (maru_writes bound_state demo_info three_writes)))"
    by (simp add: three_writes_run) (simp add: demo_defs bound_state_def)
  have bnd: "stream (the_slot (fst (maru_writes bound_state demo_info three_writes)) demo_info)
        \<noteq> LIBMARU_STREAM_MASTER demo_transport"
    by (simp add: three_writes_run) (simp add: demo_defs bound_state_def)
  note t2 = write_cnt_monotone [OF h2, where ws = "[]" and sz = 10
      and lm = demo_transport and rq = Release and fl = O_WRONLY and pn = None
      and a = "demo_args 0"]
  note u = t2 [THEN conjunct2, THEN conjunct2, THEN conjunct2, THEN conjunct2]
  note r0 = u [THEN conjunct1, THEN mp, OF bnd, THEN conjunct1]
  note rel0 = u [THEN conjunct2, THEN conjunct2, THEN conjunct1]
  note relz = u [THEN conjunct2, THEN conjunct2, THEN conjunct2]
  show ?thesis by (rule conjI h hh c a16 w16 bnd r0 rel0 relz)+
qed

section \<open>The global mutex\<close>

text \<open>
  Claim C10, on the code. With the buffers in place and the global mutex free on entry:
  when the transport refuses the volume, the set-play-volume handler replies
  \<^verbatim>\<open>EIO\<close> and returns with the global mutex still held, and so does the
  get-play-volume handler when the transport fails to report the volume. The
  \<^verbatim>\<open>break\<close> of the error branch comes before the \<^verbatim>\<open>pthread_mutex_unlock\<close>.
\<close>

theorem playvol_error_keeps_lock:
  assumes free: "\<not> lock g"
    and bufs: "in_bufsize a = 4" "out_bufsize a = 4"
  shows "((\<forall>v. \<not> maru_stream_set_volume lm (stream (the_slot g info)) v) \<longrightarrow>
            snd (snd (maru_ioctl lm g info SNDCTL_DSP_SETPLAYVOL a)) = Reply_err EIO
            \<and> lock (fst (maru_ioctl lm g info SNDCTL_DSP_SETPLAYVOL a)))
       \<and> (maru_stream_get_volume lm (stream (the_slot g info)) = None \<longrightarrow>
            snd (snd (maru_ioctl lm g info SNDCTL_DSP_GETPLAYVOL a)) = Reply_err EIO
            \<and> lock (fst (maru_ioctl lm g info SNDCTL_DSP_GETPLAYVOL a)))"
  using free bufs
  by (simp add: prep_defs set_volume_def read_volume_def Let_def)

lemma locked_blocks:
  "lock g \<Longrightarrow> in_bufsize a = 4 \<Longrightarrow> out_bufsize a = 4 \<Longrightarrow>
   maru_ioctl lm g info SNDCTL_DSP_SETPLAYVOL a = (g, [], Blocked)"
  by (simp add: prep_defs Let_def)

theorem playvol_error_keeps_lock_witness:
  "\<not> lock bound_state
   \<and> (\<forall>v. \<not> maru_stream_set_volume failing_transport (stream (the_slot bound_state demo_info)) v)
   \<and> snd (snd (maru_ioctl failing_transport bound_state demo_info SNDCTL_DSP_SETPLAYVOL
                  (demo_args 50))) = Reply_err EIO
   \<and> lock (fst (maru_ioctl failing_transport bound_state demo_info SNDCTL_DSP_SETPLAYVOL
                  (demo_args 50)))
   \<and> maru_stream_get_volume failing_transport (stream (the_slot bound_state demo_info)) = None
   \<and> snd (snd (maru_ioctl failing_transport bound_state demo_info SNDCTL_DSP_GETPLAYVOL
                  (demo_args 50))) = Reply_err EIO
   \<and> lock (fst (maru_ioctl failing_transport bound_state demo_info SNDCTL_DSP_GETPLAYVOL
                  (demo_args 50)))
   \<and> snd (snd (maru_ioctl demo_transport
                  (fst (maru_ioctl failing_transport bound_state demo_info
                          SNDCTL_DSP_SETPLAYVOL (demo_args 50)))
                  demo_info SNDCTL_DSP_SETPLAYVOL (demo_args 50))) = Blocked"
proof -
  have h1: "\<not> lock bound_state" by (simp add: demo_defs failing_transport_def bound_state_def demo_args_def)
  have h2: "in_bufsize (demo_args 50) = 4" "out_bufsize (demo_args 50) = 4"
    by (simp_all add: demo_defs failing_transport_def bound_state_def demo_args_def)
  have s: "\<forall>v. \<not> maru_stream_set_volume failing_transport
                    (stream (the_slot bound_state demo_info)) v"
    by (simp add: demo_defs failing_transport_def bound_state_def demo_args_def)
  have v: "maru_stream_get_volume failing_transport (stream (the_slot bound_state demo_info))
             = None"
    by (simp add: demo_defs failing_transport_def bound_state_def demo_args_def)
  note t = playvol_error_keeps_lock [OF h1 h2, of failing_transport demo_info]
  note c1 = t [THEN conjunct1, THEN mp, OF s]
  note c2 = t [THEN conjunct2, THEN mp, OF v]
  have b: "snd (snd (maru_ioctl demo_transport
                  (fst (maru_ioctl failing_transport bound_state demo_info
                          SNDCTL_DSP_SETPLAYVOL (demo_args 50)))
                  demo_info SNDCTL_DSP_SETPLAYVOL (demo_args 50))) = Blocked"
    using locked_blocks [OF c1 [THEN conjunct2] h2] by simp
  show ?thesis
    by (rule conjI h1 s v b c1 [THEN conjunct1] c1 [THEN conjunct2]
          c2 [THEN conjunct1] c2 [THEN conjunct2])+
qed

end
